theory Spec2Isabelle
  imports Complex_Main "HOL-Library.Log_Nat" "HOL-Library.AList" "HOL-Library.Multiset"
begin

section \<open>Python values\<close>

text \<open>
  The bot (\<^verbatim>\<open>src/bots/mnstry/src/bot.py\<close>) works on the values that \<^verbatim>\<open>json\<close> decodes:
  \<^verbatim>\<open>None\<close>, booleans, unbounded integers, floats, strings, lists and dictionaries.
  A string is a list of code points below 256. A dictionary is an association list in
  insertion order; lookup is \<open>map_of\<close> and assignment is \<open>AList.update\<close>, which
  overwrites a present key in place and appends an absent one, as a Python dict does.

  A float is an IEEE 754 binary64 value: a finite one is given by its exact value, and every arithmetic operation rounds the exact result to the nearest
  representable value, ties to even (\<open>rnd\<close>). The sign of zero is not kept: \<^verbatim>\<open>-0.0\<close>
  and \<^verbatim>\<open>0.0\<close> are both \<open>Fin 0\<close> (they compare equal in Python; only their printed
  form differs).
\<close>

datatype pyfloat = Fin real | PInf | NInf | NaN

datatype json =
    JNull
  | JBool bool
  | JInt int
  | JFloat pyfloat
  | JStr string
  | JArr "json list"
  | JObj "(string \<times> json) list"

text \<open>The exceptions the code can meet. \<open>RequestException\<close> stands for
  \<^verbatim>\<open>requests.RequestException\<close> and its subclasses (connection errors, timeouts,
  \<^verbatim>\<open>HTTPError\<close> from \<^verbatim>\<open>raise_for_status\<close>); the others are subclasses of
  \<^verbatim>\<open>Exception\<close> only.\<close>

datatype exn =
    AttributeError
  | TypeError
  | ValueError
  | OverflowError
  | ZeroDivisionError
  | KeyError
  | RequestException

subsection \<open>Binary64 rounding and float arithmetic\<close>

definition pow2 :: "int \<Rightarrow> real" where
  "pow2 k = (if 0 \<le> k then 2 ^ nat k else 1 / 2 ^ nat (- k))"

definition round_half_even :: "real \<Rightarrow> int" where
  "round_half_even x =
     (if x - of_int \<lfloor>x\<rfloor> < 1 / 2 then \<lfloor>x\<rfloor>
      else if 1 / 2 < x - of_int \<lfloor>x\<rfloor> then \<lfloor>x\<rfloor> + 1
      else if even \<lfloor>x\<rfloor> then \<lfloor>x\<rfloor> else \<lfloor>x\<rfloor> + 1)"

text \<open>\<open>binade a\<close> is the integer \<open>e\<close> with \<open>2 ^ e \<le> a < 2 ^ (e + 1)\<close>, for \<open>a > 0\<close>
  (\<open>bitlen n\<close> is the number of binary digits of \<open>n\<close>).\<close>

definition binade :: "real \<Rightarrow> int" where
  "binade a = (if 1 \<le> a then bitlen \<lfloor>a\<rfloor> - 1 else - bitlen (\<lceil>1 / a\<rceil> - 1))"

text \<open>Rounding to binary64: 53 significant bits, exponents from \<open>- 1022\<close> (below which
  the spacing stays \<open>2 ^ - 1074\<close>) to 1023 (above which the result is an infinity).\<close>

definition rnd :: "real \<Rightarrow> pyfloat" where
  "rnd q =
     (if q = 0 then Fin 0
      else let e = max (binade \<bar>q\<bar>) (- 1022);
               n = round_half_even (\<bar>q\<bar> / pow2 (e - 52))
           in if 1023 < e \<or> (e = 1023 \<and> n = 9007199254740992)
              then (if 0 < q then PInf else NInf)
              else Fin (if 0 < q then of_int n * pow2 (e - 52) else - (of_int n * pow2 (e - 52))))"

fun flt :: "pyfloat \<Rightarrow> pyfloat \<Rightarrow> bool" where
  "flt NaN y = False"
| "flt x NaN = False"
| "flt PInf y = False"
| "flt x NInf = False"
| "flt NInf y = True"
| "flt x PInf = True"
| "flt (Fin a) (Fin b) = (a < b)"

text \<open>Python's \<^verbatim>\<open>==\<close> on floats: \<^verbatim>\<open>nan\<close> is not equal to anything, itself included.\<close>

definition feq :: "pyfloat \<Rightarrow> pyfloat \<Rightarrow> bool" where
  "feq x y = (x \<noteq> NaN \<and> y \<noteq> NaN \<and> x = y)"

definition fle :: "pyfloat \<Rightarrow> pyfloat \<Rightarrow> bool" where
  "fle x y = (flt x y \<or> feq x y)"

definition fgt :: "pyfloat \<Rightarrow> pyfloat \<Rightarrow> bool" where
  "fgt x y = flt y x"

fun fneg :: "pyfloat \<Rightarrow> pyfloat" where
  "fneg (Fin a) = Fin (- a)"
| "fneg PInf = NInf"
| "fneg NInf = PInf"
| "fneg NaN = NaN"

fun fsub :: "pyfloat \<Rightarrow> pyfloat \<Rightarrow> pyfloat" where
  "fsub NaN y = NaN"
| "fsub x NaN = NaN"
| "fsub PInf PInf = NaN"
| "fsub NInf NInf = NaN"
| "fsub PInf y = PInf"
| "fsub NInf y = NInf"
| "fsub x PInf = NInf"
| "fsub x NInf = PInf"
| "fsub (Fin a) (Fin b) = rnd (a - b)"

fun fmul :: "pyfloat \<Rightarrow> pyfloat \<Rightarrow> pyfloat" where
  "fmul NaN y = NaN"
| "fmul x NaN = NaN"
| "fmul (Fin a) (Fin b) = rnd (a * b)"
| "fmul (Fin a) PInf = (if a = 0 then NaN else if 0 < a then PInf else NInf)"
| "fmul (Fin a) NInf = (if a = 0 then NaN else if 0 < a then NInf else PInf)"
| "fmul PInf (Fin b) = (if b = 0 then NaN else if 0 < b then PInf else NInf)"
| "fmul NInf (Fin b) = (if b = 0 then NaN else if 0 < b then NInf else PInf)"
| "fmul PInf PInf = PInf"
| "fmul PInf NInf = NInf"
| "fmul NInf PInf = NInf"
| "fmul NInf NInf = PInf"

text \<open>Python's \<^verbatim>\<open>/\<close> on floats raises \<^verbatim>\<open>ZeroDivisionError\<close> whenever the divisor is zero.\<close>

fun fdiv :: "pyfloat \<Rightarrow> pyfloat \<Rightarrow> exn + pyfloat" where
  "fdiv x (Fin b) =
     (if b = 0 then Inl ZeroDivisionError
      else case x of
             Fin a \<Rightarrow> Inr (rnd (a / b))
           | PInf \<Rightarrow> Inr (if 0 < b then PInf else NInf)
           | NInf \<Rightarrow> Inr (if 0 < b then NInf else PInf)
           | NaN \<Rightarrow> Inr NaN)"
| "fdiv x NaN = Inr NaN"
| "fdiv (Fin a) y = Inr (Fin 0)"
| "fdiv x y = Inr NaN"

subsection \<open>Strings: \<^verbatim>\<open>strip\<close>, \<^verbatim>\<open>lower\<close>, \<^verbatim>\<open>in\<close>, \<^verbatim>\<open>float\<close>, \<^verbatim>\<open>int\<close> and the formats\<close>

definition is_space :: "char \<Rightarrow> bool" where
  "is_space c = (let n = of_char c :: nat
                 in (9 \<le> n \<and> n \<le> 13) \<or> (28 \<le> n \<and> n \<le> 32) \<or> n = 133 \<or> n = 160)"

definition strip :: "string \<Rightarrow> string" where
  "strip s = rev (dropWhile is_space (rev (dropWhile is_space s)))"

definition lower_char :: "char \<Rightarrow> char" where
  "lower_char c =
     (case map_of (zip ''ABCDEFGHIJKLMNOPQRSTUVWXYZ'' ''abcdefghijklmnopqrstuvwxyz'') c of
        None \<Rightarrow> c
      | Some l \<Rightarrow> l)"

definition lower :: "string \<Rightarrow> string" where
  "lower s = map lower_char s"

fun is_prefix :: "string \<Rightarrow> string \<Rightarrow> bool" where
  "is_prefix [] ys = True"
| "is_prefix (x # xs) [] = False"
| "is_prefix (x # xs) (y # ys) = (x = y \<and> is_prefix xs ys)"

text \<open>\<^verbatim>\<open>sub in s\<close> on strings.\<close>

fun contains :: "string \<Rightarrow> string \<Rightarrow> bool" where
  "contains sub [] = (sub = [])"
| "contains sub (c # cs) = (is_prefix sub (c # cs) \<or> contains sub cs)"

definition is_digit :: "char \<Rightarrow> bool" where
  "is_digit c = (let n = of_char c :: nat in 48 \<le> n \<and> n \<le> 57)"

definition digit_of :: "char \<Rightarrow> nat" where
  "digit_of c = of_char c - 48"

text \<open>The longest prefix of the form \<^verbatim>\<open>digit (["_"] digit)*\<close>, as its digits, and the rest;
  called where the text starts with a digit.\<close>

fun digits_tail :: "string \<Rightarrow> nat list \<times> string" where
  "digits_tail [] = ([], [])"
| "digits_tail [c] = (if is_digit c then ([digit_of c], []) else ([], [c]))"
| "digits_tail (c # d # cs) =
     (if is_digit c then (digit_of c # fst (digits_tail (d # cs)), snd (digits_tail (d # cs)))
      else if c = CHR ''_'' \<and> is_digit d then digits_tail (d # cs)
      else ([], c # d # cs))"

definition digitpart :: "string \<Rightarrow> nat list \<times> string" where
  "digitpart s = (case s of [] \<Rightarrow> ([], []) | c # cs \<Rightarrow> if is_digit c then digits_tail s else ([], s))"

definition digits_val :: "nat list \<Rightarrow> int" where
  "digits_val ds = foldl (\<lambda>a d. 10 * a + int d) 0 ds"

text \<open>An optional sign: whether it is \<^verbatim>\<open>-\<close>, and the rest.\<close>

definition take_sign :: "string \<Rightarrow> bool \<times> string" where
  "take_sign s =
     (case s of
        [] \<Rightarrow> (False, [])
      | c # cs \<Rightarrow> if c = CHR ''-'' then (True, cs) else if c = CHR ''+'' then (False, cs) else (False, s))"

text \<open>\<^verbatim>\<open>int(s)\<close> for a string, base 10: \<open>None\<close> is \<^verbatim>\<open>ValueError\<close>.\<close>

definition int_of_str :: "string \<Rightarrow> int option" where
  "int_of_str s =
     (let (neg, r) = take_sign (strip s); (ds, rest) = digitpart r
      in if ds = [] \<or> rest \<noteq> [] then None
         else Some (if neg then - digits_val ds else digits_val ds))"

definition pow10 :: "int \<Rightarrow> real" where
  "pow10 k = (if 0 \<le> k then 10 ^ nat k else 1 / 10 ^ nat (- k))"

text \<open>The exponent part of a float literal (\<^verbatim>\<open>e\<close> or \<^verbatim>\<open>E\<close>, an optional sign, digits)
  up to the end of the text; no exponent is 0.\<close>

definition exponent_of :: "string \<Rightarrow> int option" where
  "exponent_of s =
     (case s of
        [] \<Rightarrow> Some 0
      | c # cs \<Rightarrow>
          if c = CHR ''e'' \<or> c = CHR ''E'' then
            (let (neg, r) = take_sign cs; (ds, rest) = digitpart r
             in if ds = [] \<or> rest \<noteq> [] then None
                else Some (if neg then - digits_val ds else digits_val ds))
          else None)"

text \<open>The unsigned number of a float literal: \<^verbatim>\<open>[digitpart] "." digitpart | digitpart ["."]\<close>
  and an optional exponent; its exact value.\<close>

definition number_of_str :: "string \<Rightarrow> real option" where
  "number_of_str s =
     (let (ip, r1) = digitpart s;
          dot = (r1 \<noteq> [] \<and> hd r1 = CHR ''.'');
          (fp, r2) = (if dot then digitpart (tl r1) else ([], r1))
      in if ip = [] \<and> fp = [] then None
         else case exponent_of r2 of
                None \<Rightarrow> None
              | Some ex \<Rightarrow>
                  Some (of_int (digits_val ip * 10 ^ length fp + digits_val fp)
                        * pow10 (ex - int (length fp))))"

text \<open>\<^verbatim>\<open>float(s)\<close> for a string: \<open>None\<close> is \<^verbatim>\<open>ValueError\<close>. The literal is rounded to the
  nearest binary64 value; one that is too large gives an infinity.\<close>

definition float_of_str :: "string \<Rightarrow> pyfloat option" where
  "float_of_str s =
     (let (neg, r) = take_sign (strip s); l = lower r
      in if l = ''inf'' \<or> l = ''infinity'' then Some (if neg then NInf else PInf)
         else if l = ''nan'' then Some NaN
         else case number_of_str r of
                None \<Rightarrow> None
              | Some q \<Rightarrow> Some (rnd (if neg then - q else q)))"

text \<open>\<^verbatim>\<open>str(n)\<close> for an integer.\<close>

definition digit_char :: "nat \<Rightarrow> char" where
  "digit_char d = ''0123456789'' ! d"

fun digits_of_nat :: "nat \<Rightarrow> string" where
  "digits_of_nat n =
     (if n < 10 then [digit_char n] else digits_of_nat (n div 10) @ [digit_char (n mod 10)])"

definition str_of_int :: "int \<Rightarrow> string" where
  "str_of_int i = (if i < 0 then CHR ''-'' # digits_of_nat (nat (- i)) else digits_of_nat (nat i))"

text \<open>The format \<^verbatim>\<open>:.2f\<close>: the exact value rounded to two decimals, ties to even.\<close>

definition fmt2 :: "pyfloat \<Rightarrow> string" where
  "fmt2 x =
     (case x of
        NaN \<Rightarrow> ''nan''
      | PInf \<Rightarrow> ''inf''
      | NInf \<Rightarrow> ''-inf''
      | Fin q \<Rightarrow>
          (let n = nat (round_half_even (\<bar>q\<bar> * 100))
           in (if q < 0 then ''-'' else '''') @ digits_of_nat (n div 100) @ ''.''
              @ [digit_char (n mod 100 div 10), digit_char (n mod 10)]))"

subsection \<open>Dynamic operations on decoded JSON\<close>

text \<open>Truth value testing (\<^verbatim>\<open>not x\<close>, \<^verbatim>\<open>x or y\<close>, \<^verbatim>\<open>bool(x)\<close>).\<close>

fun truthy :: "json \<Rightarrow> bool" where
  "truthy JNull = False"
| "truthy (JBool b) = b"
| "truthy (JInt n) = (n \<noteq> 0)"
| "truthy (JFloat f) = (f \<noteq> Fin 0)"
| "truthy (JStr s) = (s \<noteq> [])"
| "truthy (JArr xs) = (xs \<noteq> [])"
| "truthy (JObj kvs) = (kvs \<noteq> [])"

text \<open>\<^verbatim>\<open>x.get(k)\<close>: only a dictionary has the method; an absent key gives \<^verbatim>\<open>None\<close>.\<close>

fun py_get :: "json \<Rightarrow> string \<Rightarrow> exn + json" where
  "py_get (JObj kvs) k = Inr (case map_of kvs k of None \<Rightarrow> JNull | Some v \<Rightarrow> v)"
| "py_get x k = Inl AttributeError"

text \<open>The elements a \<^verbatim>\<open>for\<close> loop runs over: those of a list, the one-character
  strings of a string, the keys of a dictionary; anything else is not iterable.\<close>

fun py_iter :: "json \<Rightarrow> exn + json list" where
  "py_iter (JArr xs) = Inr xs"
| "py_iter (JStr s) = Inr (map (\<lambda>c. JStr [c]) s)"
| "py_iter (JObj kvs) = Inr (map (\<lambda>kv. JStr (fst kv)) kvs)"
| "py_iter x = Inl TypeError"

text \<open>\<^verbatim>\<open>int(x)\<close>: a float is truncated towards zero.\<close>

fun py_int :: "json \<Rightarrow> exn + int" where
  "py_int (JInt n) = Inr n"
| "py_int (JBool b) = Inr (if b then 1 else 0)"
| "py_int (JFloat (Fin q)) = Inr (if 0 \<le> q then \<lfloor>q\<rfloor> else \<lceil>q\<rceil>)"
| "py_int (JFloat NaN) = Inl ValueError"
| "py_int (JFloat PInf) = Inl OverflowError"
| "py_int (JFloat NInf) = Inl OverflowError"
| "py_int (JStr s) = (case int_of_str s of None \<Rightarrow> Inl ValueError | Some n \<Rightarrow> Inr n)"
| "py_int x = Inl TypeError"

text \<open>A \<^verbatim>\<open>for\<close> loop whose body may raise: the first exception ends it.\<close>

fun for_each :: "('a \<Rightarrow> 's \<Rightarrow> exn + 's) \<Rightarrow> 'a list \<Rightarrow> 's \<Rightarrow> exn + 's" where
  "for_each body [] s = Inr s"
| "for_each body (x # xs) s =
     (case body x s of Inl e \<Rightarrow> Inl e | Inr s' \<Rightarrow> for_each body xs s')"

section \<open>Discount detection\<close>

text \<open>
  \<^verbatim>\<open>to_float(value)\<close> is \<^verbatim>\<open>float(str(value).strip())\<close> with every exception turned into
  \<^verbatim>\<open>None\<close>. The text of an integer is its decimal numeral (the limit that recent Python
  versions put on the number of digits of such a text is left out), that of a float reads
  back as the same float, that of a string is the string; the text of a boolean
  (\<^verbatim>\<open>True\<close>), a list (\<^verbatim>\<open>[...]\<close>) or a dictionary (\<^verbatim>\<open>{...}\<close>) is no float literal.
\<close>

fun to_float :: "json \<Rightarrow> pyfloat option" where
  "to_float JNull = None"
| "to_float (JInt n) = Some (rnd (of_int n))"
| "to_float (JFloat f) = Some f"
| "to_float (JStr s) = float_of_str s"
| "to_float x = None"

definition calc_discount :: "pyfloat \<Rightarrow> pyfloat \<Rightarrow> exn + (pyfloat \<times> pyfloat)" where
  "calc_discount cap pr =
     (if fle cap (Fin 0) then Inr (fsub cap pr, Fin 0)
      else case fdiv (fsub cap pr) cap of
             Inl e \<Rightarrow> Inl e
           | Inr r \<Rightarrow> Inr (fsub cap pr, fmul r (Fin 100)))"

text \<open>The URL of a deal is \<^verbatim>\<open>MNSTRY_HOME\<close> or \<^verbatim>\<open>f"{MNSTRY_BASE}/products/{handle}"\<close>; the
  latter is kept as the handle it is formatted from.\<close>

datatype link = MNSTRY_HOME | Product_page json

record deal =
  title :: json
  url :: link
  variant_id :: int
  price :: pyfloat
  compare_at :: pyfloat
  discount_abs :: pyfloat
  discount_pct :: pyfloat

text \<open>The local variables of \<^verbatim>\<open>collect_deals\<close>.\<close>

record collect_vars =
  deals :: "deal list"
  discounted_products_count :: nat
  discounted_variants_count :: nat
  seen_variant_ids :: "int set"
  product_has_discount :: bool

text \<open>The body of the inner loop, for one variant \<open>v\<close> of a product.\<close>

definition variant_step :: "json \<Rightarrow> link \<Rightarrow> json \<Rightarrow> collect_vars \<Rightarrow> exn + collect_vars" where
  "variant_step ttl lnk v s =
     (case py_get v ''price'' of Inl e \<Rightarrow> Inl e | Inr pj \<Rightarrow>
      case py_get v ''compare_at_price'' of Inl e \<Rightarrow> Inl e | Inr cj \<Rightarrow>
      case py_get v ''id'' of Inl e \<Rightarrow> Inl e | Inr vid \<Rightarrow>
      case to_float pj of None \<Rightarrow> Inr s | Some pr \<Rightarrow>
      case to_float cj of None \<Rightarrow> Inr s | Some cap \<Rightarrow>
      case (if vid \<noteq> JNull then py_int vid else Inr 0) of Inl e \<Rightarrow> Inl e | Inr vid_int \<Rightarrow>
        if vid_int \<in> seen_variant_ids s then Inr s
        else if fgt cap pr then
               (case calc_discount cap pr of Inl e \<Rightarrow> Inl e | Inr (disc_abs, disc_pct) \<Rightarrow>
                  Inr (s\<lparr>seen_variant_ids := insert vid_int (seen_variant_ids s),
                         product_has_discount := True,
                         discounted_variants_count := discounted_variants_count s + 1,
                         deals := deals s @
                           [\<lparr>title = ttl, url = lnk, variant_id = vid_int, price = pr,
                             compare_at = cap, discount_abs = disc_abs,
                             discount_pct = disc_pct\<rparr>]\<rparr>))
             else Inr (s\<lparr>seen_variant_ids := insert vid_int (seen_variant_ids s)\<rparr>))"

text \<open>The body of the outer loop, for one product \<open>p\<close>.\<close>

definition product_step :: "json \<Rightarrow> collect_vars \<Rightarrow> exn + collect_vars" where
  "product_step p s =
     (case py_get p ''title'' of Inl e \<Rightarrow> Inl e | Inr t \<Rightarrow>
      case py_get p ''handle'' of Inl e \<Rightarrow> Inl e | Inr h \<Rightarrow>
      case py_get p ''variants'' of Inl e \<Rightarrow> Inl e | Inr vs \<Rightarrow>
      case py_iter (if truthy vs then vs else JArr []) of Inl e \<Rightarrow> Inl e | Inr vl \<Rightarrow>
      case for_each
             (variant_step (if truthy t then t else JStr ''MNSTRY Product'')
                           (if truthy h then Product_page h else MNSTRY_HOME))
             vl (s\<lparr>product_has_discount := False\<rparr>) of
        Inl e \<Rightarrow> Inl e
      | Inr s' \<Rightarrow>
          Inr (if product_has_discount s'
               then s'\<lparr>discounted_products_count := discounted_products_count s' + 1\<rparr>
               else s'))"

definition collect_init :: collect_vars where
  "collect_init = \<lparr>deals = [], discounted_products_count = 0, discounted_variants_count = 0,
                   seen_variant_ids = {}, product_has_discount = False\<rparr>"

definition collect_deals :: "json \<Rightarrow> exn + (deal list \<times> nat \<times> nat)" where
  "collect_deals products =
     (case py_iter products of Inl e \<Rightarrow> Inl e | Inr ps \<Rightarrow>
      case for_each product_step ps collect_init of
        Inl e \<Rightarrow> Inl e
      | Inr s \<Rightarrow> Inr (deals s, discounted_products_count s, discounted_variants_count s))"

subsection \<open>Ranking\<close>

text \<open>
  \<^verbatim>\<open>sorted(deals, key=...)\<close> is a stable comparison sort that only asks \<^verbatim>\<open><\<close> of two keys.
  It is modelled by the stable insertion sort \<open>py_sorted\<close>: where \<^verbatim>\<open><\<close> orders the keys
  totally, every stable sort returns the same list, and two elements of which neither is
  less than the other are left as they stand by both. The keys are 4-tuples, and \<^verbatim>\<open><\<close> on
  tuples looks for the first position where the two differ by \<^verbatim>\<open>==\<close> and compares there
  (\<open>key_lt\<close>); the floats of two keys are different objects, so that \<^verbatim>\<open>==\<close> is the
  comparison of their values.
\<close>

fun insort_by :: "('a \<Rightarrow> 'a \<Rightarrow> bool) \<Rightarrow> 'a \<Rightarrow> 'a list \<Rightarrow> 'a list" where
  "insort_by lt x [] = [x]"
| "insort_by lt x (y # ys) = (if lt y x then y # insort_by lt x ys else x # y # ys)"

definition py_sorted :: "('a \<Rightarrow> 'k) \<Rightarrow> ('k \<Rightarrow> 'k \<Rightarrow> bool) \<Rightarrow> 'a list \<Rightarrow> 'a list" where
  "py_sorted key lt xs = foldr (insort_by (\<lambda>a b. lt (key a) (key b))) xs []"

type_synonym rank_key = "pyfloat \<times> pyfloat \<times> pyfloat \<times> int"

fun key_lt :: "rank_key \<Rightarrow> rank_key \<Rightarrow> bool" where
  "key_lt (a1, a2, a3, a4) (b1, b2, b3, b4) =
     (if \<not> feq a1 b1 then flt a1 b1
      else if \<not> feq a2 b2 then flt a2 b2
      else if \<not> feq a3 b3 then flt a3 b3
      else a4 < b4)"

definition rank_key_of :: "deal \<Rightarrow> rank_key" where
  "rank_key_of d = (fneg (discount_pct d), fneg (discount_abs d), price d, variant_id d)"

definition rank_deals :: "deal list \<Rightarrow> deal list" where
  "rank_deals ds = py_sorted rank_key_of key_lt ds"

section \<open>The persisted state, the feed and the messages\<close>

definition TOP_N :: nat where
  "TOP_N = 5"

definition NOTIFY_SALE_END :: bool where
  "NOTIFY_SALE_END = False"

definition MAX_ATTEMPTS :: nat where
  "MAX_ATTEMPTS = 3"

definition RETRY_SLEEP_SECONDS :: nat where
  "RETRY_SLEEP_SECONDS = 3"

text \<open>
  The state file \<^verbatim>\<open>STATE_FILE\<close>: it does not exist, or it cannot be opened and decoded
  (\<^verbatim>\<open>open\<close> or \<^verbatim>\<open>json.load\<close> raises), or it holds a JSON value.
\<close>

datatype file_content = Absent | Unreadable | Content json

text \<open>\<^verbatim>\<open>k in x\<close> for a string \<open>k\<close>: a key of a dictionary, an element of a list, a
  substring of a string; any other \<open>x\<close> is not a container.\<close>

fun py_in :: "string \<Rightarrow> json \<Rightarrow> exn + bool" where
  "py_in k (JObj kvs) = Inr (k \<in> set (map fst kvs))"
| "py_in k (JArr xs) = Inr (JStr k \<in> set xs)"
| "py_in k (JStr s) = Inr (contains k s)"
| "py_in k x = Inl TypeError"

text \<open>\<^verbatim>\<open>x[k] = v\<close> for a string \<open>k\<close>: only a dictionary takes it.\<close>

fun py_setitem :: "json \<Rightarrow> string \<Rightarrow> json \<Rightarrow> exn + json" where
  "py_setitem (JObj kvs) k v = Inr (JObj (AList.update k v kvs))"
| "py_setitem x k v = Inl TypeError"

definition default_state :: json where
  "default_state = JObj [(''sale_active'', JBool False), (''last_signature'', JStr '''')]"

text \<open>The \<^verbatim>\<open>try\<close> block of \<^verbatim>\<open>load_state\<close>, once the file is decoded.\<close>

definition normalize_state :: "json \<Rightarrow> exn + json" where
  "normalize_state state =
     (case py_in ''sale_active'' state of Inl e \<Rightarrow> Inl e | Inr has_sa \<Rightarrow>
      case (if \<not> has_sa then py_setitem state ''sale_active'' (JBool False) else Inr state) of
        Inl e \<Rightarrow> Inl e
      | Inr state1 \<Rightarrow>
      case py_in ''last_signature'' state1 of Inl e \<Rightarrow> Inl e | Inr has_ls \<Rightarrow>
        if \<not> has_ls then py_setitem state1 ''last_signature'' (JStr '''') else Inr state1)"

definition load_state :: "file_content \<Rightarrow> json" where
  "load_state f =
     (case f of
        Absent \<Rightarrow> default_state
      | Unreadable \<Rightarrow> default_state
      | Content state \<Rightarrow>
          (case normalize_state state of Inl e \<Rightarrow> default_state | Inr state' \<Rightarrow> state'))"

text \<open>
  What \<^verbatim>\<open>requests.get\<close> does: it raises a \<^verbatim>\<open>RequestException\<close>, or it returns a response
  with a status code, a \<^verbatim>\<open>content-type\<close> header (if any) and a body that \<^verbatim>\<open>r.json()\<close>
  decodes (\<open>None\<close>: it raises).
\<close>

datatype http_result = Request_failed | Response int "string option" "json option"

text \<open>\<^verbatim>\<open>http_get_json\<close>; the result \<^verbatim>\<open>None\<close> is \<open>JNull\<close>.\<close>

definition http_get_json :: "http_result \<Rightarrow> json" where
  "http_get_json r =
     (case r of
        Request_failed \<Rightarrow> JNull
      | Response status_code content_type body \<Rightarrow>
          if status_code \<noteq> 200 then JNull
          else let ct = lower (case content_type of None \<Rightarrow> '''' | Some h \<Rightarrow> h)
               in if \<not> contains ''application/json'' ct \<and> \<not> contains ''json'' ct then JNull
                  else case body of None \<Rightarrow> JNull | Some d \<Rightarrow> d)"

text \<open>
  A message is kept as the values its text is formatted from. \<open>Sale_detected\<close> is message
  1 (the two counts, the number after \<^verbatim>\<open>Top\<close>, the deals of \<^verbatim>\<open>top\<close>; no deal gives the
  line \<^verbatim>\<open>(keine Details verfuegbar)\<close>). \<open>Further_info\<close> is message 2 (\<^verbatim>\<open>len(top)\<close>,
  \<^verbatim>\<open>remaining_variants\<close>, the deals of \<^verbatim>\<open>next_top\<close>; no deal gives the line
  \<^verbatim>\<open>(Keine weiteren Deals in den naechsten Slots.)\<close>). \<open>Sale_ended\<close> is the notice of the
  end of a sale. Formatting a message raises nothing.
\<close>

datatype message =
    Sale_detected nat nat nat "deal list"
  | Further_info nat nat "deal list"
  | Sale_ended

text \<open>
  The world a run changes: the state file, the messages Telegram has accepted, the
  seconds slept. What a run meets and cannot change: the answer to its request for the
  feed, and for each message whether \<^verbatim>\<open>telegram_send\<close> raises (\<^verbatim>\<open>KeyError\<close> for a missing
  credential, a \<^verbatim>\<open>RequestException\<close> from \<^verbatim>\<open>requests.post\<close> or \<^verbatim>\<open>raise_for_status\<close>).
\<close>

record world =
  state_file :: file_content
  sent :: "message list"
  slept :: "nat list"

record env =
  http_response :: http_result
  telegram :: "message \<Rightarrow> exn option"

text \<open>A statement returns normally (\<open>None\<close>) or raises, and leaves a world.\<close>

type_synonym outcome = "exn option \<times> world"

definition then_do :: "outcome \<Rightarrow> (world \<Rightarrow> outcome) \<Rightarrow> outcome" where
  "then_do r f = (case fst r of Some e \<Rightarrow> r | None \<Rightarrow> f (snd r))"

definition telegram_send :: "env \<Rightarrow> message \<Rightarrow> world \<Rightarrow> outcome" where
  "telegram_send en m w =
     (case telegram en m of
        Some e \<Rightarrow> (Some e, w)
      | None \<Rightarrow> (None, w\<lparr>sent := sent w @ [m]\<rparr>))"

definition save_state :: "json \<Rightarrow> world \<Rightarrow> outcome" where
  "save_state state w = (None, w\<lparr>state_file := Content state\<rparr>)"

text \<open>The slice \<^verbatim>\<open>xs[a:b]\<close> for \<open>0 \<le> a \<le> b\<close>.\<close>

definition slice :: "nat \<Rightarrow> nat \<Rightarrow> 'a list \<Rightarrow> 'a list" where
  "slice a b xs = take (b - a) (drop a xs)"

section \<open>One cycle and its retries\<close>

definition signature_of :: "deal list \<Rightarrow> string" where
  "signature_of top5 =
     (case top5 of
        [] \<Rightarrow> ''''
      | d0 # rest \<Rightarrow>
          str_of_int (variant_id d0) @ ''|'' @ fmt2 (compare_at d0) @ ''>'' @ fmt2 (price d0))"

text \<open>The two messages of the change from no sale to a sale.\<close>

definition notify_sale_start :: "env \<Rightarrow> nat \<Rightarrow> nat \<Rightarrow> deal list \<Rightarrow> deal list \<Rightarrow> world \<Rightarrow> outcome" where
  "notify_sale_start en discounted_products discounted_variants top5 next_top w =
     then_do
       (telegram_send en
          (Sale_detected discounted_products discounted_variants
             (if top5 \<noteq> [] then min TOP_N (length top5) else TOP_N) top5) w)
       (telegram_send en
          (Further_info (length top5)
             (nat (max 0 (int discounted_variants - int (length top5)))) next_top))"

text \<open>The end of \<^verbatim>\<open>run_once\<close>: \<^verbatim>\<open># Update state\<close>.\<close>

definition update_state :: "json \<Rightarrow> bool \<Rightarrow> string \<Rightarrow> world \<Rightarrow> outcome" where
  "update_state state sale_now signature w =
     (case py_setitem state ''sale_active'' (JBool sale_now) of
        Inl e \<Rightarrow> (Some e, w)
      | Inr state1 \<Rightarrow>
          (case py_setitem state1 ''last_signature'' (JStr signature) of
             Inl e \<Rightarrow> (Some e, w)
           | Inr state2 \<Rightarrow> save_state state2 w))"

definition run_once :: "env \<Rightarrow> world \<Rightarrow> outcome" where
  "run_once en w =
     (let state = load_state (state_file w);
          data = http_get_json (http_response en)
      in if \<not> truthy data then (None, w)
         else case py_get data ''products'' of Inl e \<Rightarrow> (Some e, w) | Inr ps \<Rightarrow>
              case collect_deals (if truthy ps then ps else JArr []) of
                Inl e \<Rightarrow> (Some e, w)
              | Inr (ds, discounted_products, discounted_variants) \<Rightarrow>
                  let sale_now = (0 < length ds);
                      ranked = rank_deals ds;
                      top5 = slice 0 TOP_N ranked;
                      next_top = slice TOP_N (TOP_N * 2) ranked;
                      signature = signature_of top5
                  in case py_get state ''sale_active'' of
                       Inl e \<Rightarrow> (Some e, w)
                     | Inr sa \<Rightarrow>
                         then_do
                           (then_do
                              (if \<not> truthy sa \<and> sale_now
                               then notify_sale_start en discounted_products discounted_variants
                                      top5 next_top w
                               else (None, w))
                              (\<lambda>w1. if truthy sa \<and> \<not> sale_now \<and> NOTIFY_SALE_END
                                    then telegram_send en Sale_ended w1
                                    else (None, w1)))
                           (update_state state sale_now signature))"

text \<open>\<^verbatim>\<open>time.sleep\<close>.\<close>

definition sleep :: "nat \<Rightarrow> world \<Rightarrow> world" where
  "sleep seconds w = w\<lparr>slept := slept w @ [seconds]\<rparr>"

text \<open>
  The loop of \<^verbatim>\<open>main\<close> over the attempts still to make; each attempt meets its own
  environment \<open>envs attempt\<close>. The first handler takes a \<^verbatim>\<open>RequestException\<close>, the second
  any other exception.
\<close>

fun attempts :: "(nat \<Rightarrow> env) \<Rightarrow> nat list \<Rightarrow> world \<Rightarrow> outcome" where
  "attempts envs [] w = (None, w)"
| "attempts envs (attempt # rest) w =
     (case run_once (envs attempt) w of
        (None, w') \<Rightarrow> (None, w')
      | (Some e, w') \<Rightarrow>
          if attempt = MAX_ATTEMPTS - 1 then (Some e, w')
          else attempts envs rest
                 (sleep (if e = RequestException then RETRY_SLEEP_SECONDS * (attempt + 1)
                         else RETRY_SLEEP_SECONDS) w'))"

definition main :: "(nat \<Rightarrow> env) \<Rightarrow> world \<Rightarrow> outcome" where
  "main envs w = attempts envs [0..<MAX_ATTEMPTS] w"

section \<open>Notions of the specification\<close>

text \<open>
  The words in which the properties below are stated. None of them is part of the bot.
\<close>

text \<open>
  \<open>polls en ds dp dv\<close>: the fetch step of a cycle in the environment \<open>en\<close> yields data,
  and \<^verbatim>\<open>collect_deals\<close> extracts from it the deals \<open>ds\<close> and the counts \<open>dp\<close> (discounted
  products) and \<open>dv\<close> (discounted variants). \<open>prior_flag w\<close> is the value of \<^verbatim>\<open>was_active\<close>
  that a cycle starting in the world \<open>w\<close> computes from the state file, if it gets that far
  without raising.
\<close>

definition polls :: "env \<Rightarrow> deal list \<Rightarrow> nat \<Rightarrow> nat \<Rightarrow> bool" where
  "polls en ds dp dv =
     (truthy (http_get_json (http_response en)) \<and>
      (case py_get (http_get_json (http_response en)) ''products'' of
         Inl e \<Rightarrow> False
       | Inr ps \<Rightarrow> collect_deals (if truthy ps then ps else JArr []) = Inr (ds, dp, dv)))"

definition prior_flag :: "world \<Rightarrow> bool option" where
  "prior_flag w =
     (case py_get (load_state (state_file w)) ''sale_active'' of
        Inl e \<Rightarrow> None
      | Inr sa \<Rightarrow> Some (truthy sa))"

text \<open>The value a state file holds under a key, when it holds a dictionary.\<close>

definition persisted :: "world \<Rightarrow> string \<Rightarrow> json option" where
  "persisted w k = (case state_file w of Content (JObj st) \<Rightarrow> map_of st k | _ \<Rightarrow> None)"

text \<open>The fetch step yields no data: the request fails, the status is not 200, the content
  type does not mention JSON, or the body cannot be decoded.\<close>

definition no_data :: "http_result \<Rightarrow> bool" where
  "no_data r =
     (case r of
        Request_failed \<Rightarrow> True
      | Response status_code content_type body \<Rightarrow>
          status_code \<noteq> 200 \<or> body = None \<or>
          \<not> contains ''json'' (lower (case content_type of None \<Rightarrow> '''' | Some h \<Rightarrow> h)))"

definition lookup :: "(string \<times> json) list \<Rightarrow> string \<Rightarrow> json" where
  "lookup st k = (case map_of st k of None \<Rightarrow> JNull | Some v \<Rightarrow> v)"

text \<open>The dictionary \<^verbatim>\<open>run_once\<close> saves: the loaded one with its two fields assigned.\<close>

definition new_state :: "(string \<times> json) list \<Rightarrow> deal list \<Rightarrow> (string \<times> json) list" where
  "new_state st ds =
     AList.update ''last_signature'' (JStr (signature_of (slice 0 TOP_N (rank_deals ds))))
       (AList.update ''sale_active'' (JBool (ds \<noteq> [])) st)"

text \<open>What \<^verbatim>\<open>load_state\<close> makes of a dictionary: absent keys get their defaults.\<close>

definition with_defaults :: "(string \<times> json) list \<Rightarrow> (string \<times> json) list" where
  "with_defaults a =
     (let a1 = (if ''sale_active'' \<in> set (map fst a) then a
                else AList.update ''sale_active'' (JBool False) a)
      in if ''last_signature'' \<in> set (map fst a1) then a1
         else AList.update ''last_signature'' (JStr '''') a1)"

text \<open>The entries of a state dictionary under other keys than the two of the bot.\<close>

definition extra_fields :: "(string \<times> json) list \<Rightarrow> (string \<times> json) list" where
  "extra_fields st =
     filter (\<lambda>kv. fst kv \<noteq> ''sale_active'' \<and> fst kv \<noteq> ''last_signature'') st"

text \<open>What becomes of messages sent one after the other: the exception that ends the
  sending, if any, and the messages accepted before it.\<close>

fun deliver_all :: "env \<Rightarrow> message list \<Rightarrow> exn option \<times> message list" where
  "deliver_all en [] = (None, [])"
| "deliver_all en (m # ms) =
     (case telegram en m of
        Some e \<Rightarrow> (Some e, [])
      | None \<Rightarrow> (fst (deliver_all en ms), m # snd (deliver_all en ms)))"

text \<open>The messages a cycle has to send: those of a started sale, or none.\<close>

definition due_messages :: "bool \<Rightarrow> deal list \<Rightarrow> nat \<Rightarrow> nat \<Rightarrow> message list" where
  "due_messages was_active ds dp dv =
     (if \<not> was_active \<and> ds \<noteq> []
      then [Sale_detected dp dv
              (if slice 0 TOP_N (rank_deals ds) \<noteq> []
               then min TOP_N (length (slice 0 TOP_N (rank_deals ds))) else TOP_N)
              (slice 0 TOP_N (rank_deals ds)),
            Further_info (length (slice 0 TOP_N (rank_deals ds)))
              (nat (max 0 (int dv - int (length (slice 0 TOP_N (rank_deals ds))))))
              (slice TOP_N (TOP_N * 2) (rank_deals ds))]
      else [])"

text \<open>The seconds slept after a failed attempt, by the number of the attempt (from 1).\<close>

definition backoff :: "exn \<Rightarrow> nat \<Rightarrow> nat" where
  "backoff e attempt_number =
     (if e = RequestException then RETRY_SLEEP_SECONDS * attempt_number
      else RETRY_SLEEP_SECONDS)"

text \<open>
  The order of the ranking in the words of the specification: \<open>precedes a b\<close> when \<open>a\<close> has
  the larger percentage discount, or the same and the larger absolute discount, or the
  same and the lower price, or the same and a variant identifier that is not larger.
\<close>

definition precedes :: "deal \<Rightarrow> deal \<Rightarrow> bool" where
  "precedes a b =
     (flt (discount_pct b) (discount_pct a) \<or>
      (discount_pct a = discount_pct b \<and>
       (flt (discount_abs b) (discount_abs a) \<or>
        (discount_abs a = discount_abs b \<and>
         (flt (price a) (price b) \<or>
          (price a = price b \<and> variant_id a \<le> variant_id b))))))"

text \<open>A deal whose sort key holds numbers only.\<close>

definition comparable :: "deal \<Rightarrow> bool" where
  "comparable d = (discount_pct d \<noteq> NaN \<and> discount_abs d \<noteq> NaN \<and> price d \<noteq> NaN)"

text \<open>
  What one variant of the feed is to the extractor, whatever came before it: it is skipped
  (its price or its reference price is missing or is no number), or reading it raises (it
  is no dictionary, or it has both prices and an identifier that \<^verbatim>\<open>int\<close> refuses), or it is a
  candidate with an identifier, a price and a reference price.
\<close>

datatype verdict = Skipped | Raises exn | Candidate int pyfloat pyfloat

definition judge :: "json \<Rightarrow> verdict" where
  "judge v =
     (case v of
        JObj kvs \<Rightarrow>
          (case to_float (lookup kvs ''price'') of
             None \<Rightarrow> Skipped
           | Some p \<Rightarrow>
               (case to_float (lookup kvs ''compare_at_price'') of
                  None \<Rightarrow> Skipped
                | Some c \<Rightarrow>
                    if lookup kvs ''id'' = JNull then Candidate 0 p c
                    else (case py_int (lookup kvs ''id'') of
                            Inl e \<Rightarrow> Raises e
                          | Inr i \<Rightarrow> Candidate i p c)))
      | _ \<Rightarrow> Raises AttributeError)"

text \<open>
  The variants of a feed in listing order, each with the title and the link of its
  product. A product that is no dictionary, or whose variants cannot be iterated, is
  listed as one entry that raises.
\<close>

type_synonym entry = "json \<times> link \<times> verdict"

definition product_title :: "(string \<times> json) list \<Rightarrow> json" where
  "product_title kvs =
     (if truthy (lookup kvs ''title'') then lookup kvs ''title'' else JStr ''MNSTRY Product'')"

definition product_link :: "(string \<times> json) list \<Rightarrow> link" where
  "product_link kvs =
     (if truthy (lookup kvs ''handle'') then Product_page (lookup kvs ''handle'') else MNSTRY_HOME)"

definition product_variants :: "(string \<times> json) list \<Rightarrow> json" where
  "product_variants kvs =
     (if truthy (lookup kvs ''variants'') then lookup kvs ''variants'' else JArr [])"

definition product_entries :: "json \<Rightarrow> entry list" where
  "product_entries p =
     (case p of
        JObj kvs \<Rightarrow>
          (case py_iter (product_variants kvs) of
             Inl e \<Rightarrow> [(JNull, MNSTRY_HOME, Raises e)]
           | Inr vl \<Rightarrow> map (\<lambda>v. (product_title kvs, product_link kvs, judge v)) vl)
      | _ \<Rightarrow> [(JNull, MNSTRY_HOME, Raises AttributeError)])"

definition listing :: "json list \<Rightarrow> entry list" where
  "listing ps = concat (map product_entries ps)"

definition raises :: "entry \<Rightarrow> bool" where
  "raises e = (case snd (snd e) of Raises x \<Rightarrow> True | _ \<Rightarrow> False)"

definition cand_id :: "entry \<Rightarrow> int option" where
  "cand_id e = (case snd (snd e) of Candidate i p c \<Rightarrow> Some i | _ \<Rightarrow> None)"

text \<open>The percentage discount: 0 when the reference price is at most 0, else
  100 times the absolute discount over the reference price.\<close>

definition percentage :: "pyfloat \<Rightarrow> pyfloat \<Rightarrow> pyfloat" where
  "percentage c p =
     (if fle c (Fin 0) then Fin 0
      else case fdiv (fsub c p) c of Inl e \<Rightarrow> NaN | Inr r \<Rightarrow> fmul r (Fin 100))"

text \<open>
  The deal that an entry yields after the entries \<open>earlier\<close>: a candidate whose reference
  price is greater than its price, and whose identifier is that of no earlier candidate,
  yields one deal; every other entry yields none.
\<close>

definition yield :: "entry list \<Rightarrow> entry \<Rightarrow> deal list" where
  "yield earlier e =
     (case e of
        (t, l, Candidate i p c) \<Rightarrow>
          if fgt c p \<and> Some i \<notin> set (map cand_id earlier)
          then [\<lparr>title = t, url = l, variant_id = i, price = p, compare_at = c,
                 discount_abs = fsub c p, discount_pct = percentage c p\<rparr>]
          else []
      | _ \<Rightarrow> [])"

definition deal_set :: "entry list \<Rightarrow> deal list" where
  "deal_set es = concat (map (\<lambda>n. yield (take n es) (es ! n)) [0..<length es])"

text \<open>
  The invariant of the two loops: after the entries \<open>es\<close>, none of which raises, the deals
  are \<open>deal_set es\<close>, the variants counted are the deals, and the identifiers seen are
  those of the candidates.
\<close>

definition collected :: "entry list \<Rightarrow> collect_vars \<Rightarrow> bool" where
  "collected es s =
     (deals s = deal_set es \<and> discounted_variants_count s = length (deal_set es) \<and>
      seen_variant_ids s = {i. Some i \<in> set (map cand_id es)} \<and> \<not> (\<exists>e\<in>set es. raises e))"

section \<open>Example feeds, environments and worlds\<close>

definition hoodie_feed :: json where
  "hoodie_feed =
     JObj [(''products'',
        JArr [JObj [(''title'', JStr ''Hoodie''), (''handle'', JStr ''hoodie''),
                    (''variants'',
                       JArr [JObj [(''id'', JInt 1), (''price'', JStr ''40.00''),
                                   (''compare_at_price'', JStr ''80.00'')]])]])]"

definition quiet_world :: world where
  "quiet_world = \<lparr>state_file = Absent, sent = [], slept = []\<rparr>"

definition hoodie_deal :: deal where
  "hoodie_deal =
     \<lparr>title = JStr ''Hoodie'', url = Product_page (JStr ''hoodie''), variant_id = 1,
      price = Fin 40, compare_at = Fin 80, discount_abs = Fin 40, discount_pct = Fin 50\<rparr>"

definition hoodie_env :: env where
  "hoodie_env =
     \<lparr>http_response = Response 200 (Some ''application/json; charset=utf-8'') (Some hoodie_feed),
      telegram = (\<lambda>m. None)\<rparr>"

definition active_world :: world where
  "active_world =
     \<lparr>state_file = Content (JObj [(''sale_active'', JBool True),
                                  (''last_signature'', JStr ''1|80.00>40.00'')]),
      sent = [], slept = []\<rparr>"

text \<open>A feed whose only variant has no reference price.\<close>

definition plain_env :: env where
  "plain_env =
     \<lparr>http_response = Response 200 (Some ''application/json'')
        (Some (JObj [(''products'',
           JArr [JObj [(''title'', JStr ''Hoodie''), (''handle'', JStr ''hoodie''),
                       (''variants'',
                          JArr [JObj [(''id'', JInt 1), (''price'', JStr ''40.00''),
                                      (''compare_at_price'', JNull)]])]])])),
      telegram = (\<lambda>m. None)\<rparr>"

definition resigned_world :: world where
  "resigned_world =
     active_world\<lparr>state_file := Content (JObj [(''sale_active'', JBool True),
                                                 (''last_signature'', JStr ''7|9.00>1.00'')])\<rparr>"

definition noted_world :: world where
  "noted_world =
     \<lparr>state_file = Content (JObj [(''note'', JStr ''keep''), (''sale_active'', JBool False)]),
      sent = [], slept = []\<rparr>"

text \<open>Telegram is down, or a credential is missing, or the feed cannot be reached.\<close>

definition telegram_down_env :: env where
  "telegram_down_env = hoodie_env\<lparr>telegram := (\<lambda>m. Some RequestException)\<rparr>"

definition no_token_env :: env where
  "no_token_env = hoodie_env\<lparr>telegram := (\<lambda>m. Some KeyError)\<rparr>"

definition unreachable_env :: env where
  "unreachable_env = \<lparr>http_response = Request_failed, telegram = (\<lambda>m. None)\<rparr>"

text \<open>Two variants whose reference price is an infinity: the percentage discount of
  both deals is NaN, and two NaN compare neither equal nor less.\<close>

definition boundless_feed :: json where
  "boundless_feed =
     JArr [JObj [(''title'', JStr ''Cap''), (''handle'', JStr ''cap''),
                 (''variants'',
                    JArr [JObj [(''id'', JInt 2), (''price'', JInt 1),
                                (''compare_at_price'', JStr ''inf'')],
                          JObj [(''id'', JInt 1), (''price'', JInt 1),
                                (''compare_at_price'', JStr ''inf'')]])]]"

definition boundless_deal :: "int \<Rightarrow> deal" where
  "boundless_deal i =
     \<lparr>title = JStr ''Cap'', url = Product_page (JStr ''cap''), variant_id = i,
      price = Fin 1, compare_at = PInf, discount_abs = PInf, discount_pct = NaN\<rparr>"

definition cheap_deal :: deal where
  "cheap_deal =
     \<lparr>title = JStr ''Hoodie'', url = Product_page (JStr ''hoodie''), variant_id = 2,
      price = Fin 20, compare_at = Fin 80, discount_abs = Fin 60, discount_pct = Fin 75\<rparr>"



text \<open>The same identifier twice: first at its reference price, then below it.\<close>

definition repeated_products :: "json list" where
  "repeated_products =
     [JObj [(''title'', JStr ''Hoodie''), (''handle'', JStr ''hoodie''),
            (''variants'',
               JArr [JObj [(''id'', JInt 1), (''price'', JStr ''40.00''),
                           (''compare_at_price'', JStr ''40.00'')],
                     JObj [(''id'', JInt 1), (''price'', JStr ''40.00''),
                           (''compare_at_price'', JStr ''80.00'')]])]]"

text \<open>The same identifier twice, both below the reference price.\<close>

definition twice_products :: "json list" where
  "twice_products =
     [JObj [(''title'', JStr ''Hoodie''), (''handle'', JStr ''hoodie''),
            (''variants'',
               JArr [JObj [(''id'', JInt 1), (''price'', JStr ''40.00''),
                           (''compare_at_price'', JStr ''80.00'')],
                     JObj [(''id'', JInt 1), (''price'', JStr ''20.00''),
                           (''compare_at_price'', JStr ''80.00'')]])]]"

section \<open>Properties\<close>

subsection \<open>What a cycle polls and what it remembers\<close>

lemma is_prefix_iff: "is_prefix xs ys \<longleftrightarrow> (\<exists>zs. ys = xs @ zs)"
  by (induction xs ys rule: is_prefix.induct) auto

lemma contains_iff: "contains sub s \<longleftrightarrow> (\<exists>p q. s = p @ sub @ q)"
proof (induction s)
  case Nil
  then show ?case by auto
next
  case (Cons c cs)
  show ?case
  proof
    assume "contains sub (c # cs)"
    then consider "is_prefix sub (c # cs)" | "contains sub cs" by auto
    then show "\<exists>p q. c # cs = p @ sub @ q"
    proof cases
      case 1
      then obtain zs where "c # cs = sub @ zs" by (auto simp: is_prefix_iff)
      then have "c # cs = [] @ sub @ zs" by simp
      then show ?thesis by blast
    next
      case 2
      then obtain p q where "cs = p @ sub @ q" using Cons.IH by auto
      then have "c # cs = (c # p) @ sub @ q" by simp
      then show ?thesis by blast
    qed
  next
    assume "\<exists>p q. c # cs = p @ sub @ q"
    then obtain p q where pq: "c # cs = p @ sub @ q" by blast
    show "contains sub (c # cs)"
    proof (cases p)
      case Nil
      then have "is_prefix sub (c # cs)" using pq by (auto simp: is_prefix_iff)
      then show ?thesis by simp
    next
      case (Cons a p')
      then have "cs = p' @ sub @ q" using pq by simp
      then have "contains sub cs" using Cons.IH by blast
      then show ?thesis by simp
    qed
  qed
qed

lemma contains_application_json: "contains ''application/json'' s \<Longrightarrow> contains ''json'' s"
proof -
  assume "contains ''application/json'' s"
  then obtain p q where "s = p @ ''application/json'' @ q" by (auto simp: contains_iff)
  then have "s = (p @ ''application/'') @ ''json'' @ q" by simp
  then show ?thesis unfolding contains_iff by blast
qed

lemma no_data_get: "no_data r \<Longrightarrow> http_get_json r = JNull"
  by (auto simp: no_data_def http_get_json_def Let_def contains_application_json
      split: http_result.splits option.splits)

lemma run_once_no_data: "no_data (http_response en) \<Longrightarrow> run_once en w = (None, w)"
  by (simp add: run_once_def no_data_get)

lemma main_first_returns: "run_once (envs 0) w = (None, w') \<Longrightarrow> main envs w = (None, w')"
  by (simp add: main_def MAX_ATTEMPTS_def upt_conv_Cons)

text \<open>
  \<^bold>\<open>C3.\<close> When the fetch step yields no data (the request fails, the status is not 200,
  the content type is not JSON or the body cannot be decoded), the cycle returns without
  raising and leaves the world as it was: no message is sent, the state file is not
  written, and nothing is slept. \<^verbatim>\<open>main\<close> returns after this first attempt, whatever the
  later attempts would have met.
\<close>

theorem no_data_exits_quietly:
  assumes "no_data (http_response (envs 0))"
  shows "run_once (envs 0) w = (None, w) \<and> main envs w = (None, w)"
  using assms by (simp add: run_once_no_data main_first_returns)

theorem no_data_exits_quietly_witness:
  "no_data (Response 503 (Some ''text/html'') None) \<and>
   main (\<lambda>i. \<lparr>http_response = Response 503 (Some ''text/html'') None, telegram = (\<lambda>m. None)\<rparr>)
     quiet_world = (None, quiet_world)"
  using no_data_exits_quietly
    [of "\<lambda>i. \<lparr>http_response = Response 503 (Some ''text/html'') None, telegram = (\<lambda>m. None)\<rparr>"
        quiet_world]
  by (simp add: no_data_def)

subsection \<open>The cycle once the feed is polled\<close>

lemma mset_insort_by: "mset (insort_by lt x xs) = add_mset x (mset xs)"
  by (induction xs) auto

lemma mset_py_sorted: "mset (py_sorted key lt xs) = mset xs"
  by (induction xs) (auto simp: py_sorted_def mset_insort_by)

lemma mset_rank_deals: "mset (rank_deals ds) = mset ds"
  by (simp add: rank_deals_def mset_py_sorted)

lemma length_rank_deals: "length (rank_deals ds) = length ds"
  using mset_rank_deals [of ds] by (metis size_mset)

lemma set_rank_deals: "set (rank_deals ds) = set ds"
  using mset_rank_deals [of ds] by (metis set_mset_mset)

lemma rank_deals_Nil_iff: "rank_deals ds = [] \<longleftrightarrow> ds = []"
  using length_rank_deals [of ds] by (metis length_0_conv)

lemma then_do_simps:
  "then_do (None, w) f = f w"
  "then_do (Some e, w) f = (Some e, w)"
  by (simp_all add: then_do_def)

lemma prior_flag_obj:
  "prior_flag w = Some b \<Longrightarrow>
     \<exists>st. load_state (state_file w) = JObj st \<and> truthy (lookup st ''sale_active'') = b"
  by (cases "load_state (state_file w)") (auto simp: prior_flag_def lookup_def)

lemma run_once_polls:
  assumes "polls en ds dp dv" and "load_state (state_file w) = JObj st"
  shows "run_once en w =
     then_do
       (if \<not> truthy (lookup st ''sale_active'') \<and> ds \<noteq> []
        then notify_sale_start en dp dv (slice 0 TOP_N (rank_deals ds))
               (slice TOP_N (TOP_N * 2) (rank_deals ds)) w
        else (None, w))
       (\<lambda>w1. (None, w1\<lparr>state_file := Content (JObj (new_state st ds))\<rparr>))"
proof -
  from assms(1) obtain ps where
    data: "truthy (http_get_json (http_response en))"
    and ps: "py_get (http_get_json (http_response en)) ''products'' = Inr ps"
    and cd: "collect_deals (if truthy ps then ps else JArr []) = Inr (ds, dp, dv)"
    by (auto simp: polls_def split: sum.splits)
  show ?thesis
    by (cases "if \<not> truthy (lookup st ''sale_active'') \<and> ds \<noteq> []
        then notify_sale_start en dp dv (slice 0 TOP_N (rank_deals ds))
               (slice TOP_N (TOP_N * 2) (rank_deals ds)) w
        else (None, w)")
      (simp add: run_once_def data ps cd assms(2) Let_def NOTIFY_SALE_END_def then_do_def
        update_state_def save_state_def new_state_def lookup_def split: option.splits)
qed

lemma notify_sale_start_delivered:
  assumes "\<forall>m. telegram en m = None"
  shows "notify_sale_start en dp dv t n w =
     (None, w\<lparr>sent := sent w @
        [Sale_detected dp dv (if t \<noteq> [] then min TOP_N (length t) else TOP_N) t,
         Further_info (length t) (nat (max 0 (int dv - int (length t)))) n]\<rparr>)"
  using assms by (simp add: notify_sale_start_def telegram_send_def then_do_def)

lemma persisted_new_state:
  "persisted (w\<lparr>state_file := Content (JObj (new_state st ds))\<rparr>) ''sale_active''
     = Some (JBool (ds \<noteq> []))"
  "persisted (w\<lparr>state_file := Content (JObj (new_state st ds))\<rparr>) ''last_signature''
     = Some (JStr (signature_of (slice 0 TOP_N (rank_deals ds))))"
  by (simp_all add: persisted_def new_state_def update_conv')

lemma run_once_returns:
  assumes "run_once en w = (None, w1)"
  shows "(\<not> truthy (http_get_json (http_response en)) \<and> w1 = w) \<or>
         (\<exists>ds dp dv st. polls en ds dp dv \<and> load_state (state_file w) = JObj st \<and>
            state_file w1 = Content (JObj (new_state st ds)) \<and>
            w1\<lparr>state_file := state_file w\<rparr> = w\<lparr>sent := sent w1\<rparr>)"
proof (cases "truthy (http_get_json (http_response en))")
  case False
  then show ?thesis using assms by (simp add: run_once_def)
next
  case True
  obtain ps where ps: "py_get (http_get_json (http_response en)) ''products'' = Inr ps"
    using assms True by (cases "py_get (http_get_json (http_response en)) ''products''")
      (auto simp: run_once_def)
  obtain ds dp dv where cd: "collect_deals (if truthy ps then ps else JArr []) = Inr (ds, dp, dv)"
    using assms True ps by (cases "collect_deals (if truthy ps then ps else JArr [])")
      (auto simp: run_once_def)
  have p: "polls en ds dp dv" using True ps cd by (simp add: polls_def)
  obtain st where st: "load_state (state_file w) = JObj st"
    using assms True ps cd by (cases "load_state (state_file w)") (auto simp: run_once_def Let_def)
  note r = run_once_polls [OF p st]
  have "state_file w1 = Content (JObj (new_state st ds)) \<and>
        w1\<lparr>state_file := state_file w\<rparr> = w\<lparr>sent := sent w1\<rparr>"
    using assms unfolding r
    by (auto simp: then_do_def notify_sale_start_def telegram_send_def
        split: if_splits option.splits)
  then show ?thesis using p st by blast
qed

lemma load_state_both_keys:
  assumes "''sale_active'' \<in> fst ` set st" and "''last_signature'' \<in> fst ` set st"
  shows "load_state (Content (JObj st)) = JObj st"
  using assms by (simp add: load_state_def normalize_state_def)

lemma dom_new_state:
  "''sale_active'' \<in> fst ` set (new_state st ds)"
  "''last_signature'' \<in> fst ` set (new_state st ds)"
  by (simp_all add: new_state_def dom_update)

lemma new_state_idem: "new_state (new_state st ds) ds = new_state st ds"
proof -
  have "map_of (new_state st ds) ''sale_active'' = Some (JBool (ds \<noteq> []))"
    by (simp add: new_state_def update_conv')
  then have "AList.update ''sale_active'' (JBool (ds \<noteq> [])) (new_state st ds) = new_state st ds"
    by (rule update_triv)
  then show ?thesis
    by (simp add: new_state_def [of "new_state st ds"]) (simp add: new_state_def)
qed

text \<open>
  \<^bold>\<open>C1.\<close> Let a cycle poll the deals \<open>ds\<close>. (a) If the state file records no active sale
  and \<open>ds\<close> is not empty, and Telegram accepts the messages, the cycle sends exactly two
  messages, message 1 and message 2 of a started sale, and persists \<^verbatim>\<open>sale_active = true\<close>.
  (b) If the state file records an active sale and \<open>ds\<close> is empty, the cycle sends nothing
  (\<^verbatim>\<open>NOTIFY_SALE_END\<close> is \<^verbatim>\<open>False\<close>) and persists \<^verbatim>\<open>sale_active = false\<close>. (c) If the recorded
  flag equals \<^verbatim>\<open>sale_now\<close>, the cycle sends nothing and persists the same flag again.
\<close>

theorem sale_transitions:
  assumes "polls en ds dp dv"
  shows "(prior_flag w = Some False \<and> ds \<noteq> [] \<and> (\<forall>m. telegram en m = None) \<longrightarrow>
           (\<exists>w'. run_once en w = (None, w') \<and>
                 sent w' = sent w @
                   [Sale_detected dp dv (min TOP_N (length ds)) (take TOP_N (rank_deals ds)),
                    Further_info (min TOP_N (length ds)) (dv - min TOP_N (length ds))
                      (take TOP_N (drop TOP_N (rank_deals ds)))] \<and>
                 persisted w' ''sale_active'' = Some (JBool True))) \<and>
         (prior_flag w = Some True \<and> ds = [] \<longrightarrow>
           (\<exists>w'. run_once en w = (None, w') \<and> sent w' = sent w \<and>
                 persisted w' ''sale_active'' = Some (JBool False))) \<and>
         (prior_flag w = Some (ds \<noteq> []) \<longrightarrow>
           (\<exists>w'. run_once en w = (None, w') \<and> sent w' = sent w \<and>
                 persisted w' ''sale_active'' = Some (JBool (ds \<noteq> []))))"
proof (intro conjI impI)
  assume a: "prior_flag w = Some False \<and> ds \<noteq> [] \<and> (\<forall>m. telegram en m = None)"
  then obtain st where st: "load_state (state_file w) = JObj st"
    and sa: "\<not> truthy (lookup st ''sale_active'')"
    using prior_flag_obj by blast
  from a have ne: "ds \<noteq> []" and tg: "\<forall>m. telegram en m = None" by simp_all
  have top: "slice 0 TOP_N (rank_deals ds) \<noteq> []"
    using ne by (simp add: slice_def TOP_N_def rank_deals_Nil_iff)
  have len: "length (slice 0 TOP_N (rank_deals ds)) = min TOP_N (length ds)"
    by (simp add: slice_def length_rank_deals min.commute)
  have rem: "nat (max 0 (int dv - int (min TOP_N (length ds)))) = dv - min TOP_N (length ds)"
    by simp
  show "\<exists>w'. run_once en w = (None, w') \<and>
          sent w' = sent w @
            [Sale_detected dp dv (min TOP_N (length ds)) (take TOP_N (rank_deals ds)),
             Further_info (min TOP_N (length ds)) (dv - min TOP_N (length ds))
               (take TOP_N (drop TOP_N (rank_deals ds)))] \<and>
          persisted w' ''sale_active'' = Some (JBool True)"
    using ne sa top
    by (simp add: run_once_polls [OF assms st] notify_sale_start_delivered [OF tg]
        then_do_simps persisted_new_state len rem)
      (simp add: slice_def)
next
  assume a: "prior_flag w = Some True \<and> ds = []"
  then obtain st where st: "load_state (state_file w) = JObj st"
    using prior_flag_obj by blast
  show "\<exists>w'. run_once en w = (None, w') \<and> sent w' = sent w \<and>
          persisted w' ''sale_active'' = Some (JBool False)"
    using a by (simp add: run_once_polls [OF assms st] then_do_simps persisted_new_state)
next
  assume a: "prior_flag w = Some (ds \<noteq> [])"
  then obtain st where st: "load_state (state_file w) = JObj st"
    and sa: "truthy (lookup st ''sale_active'') = (ds \<noteq> [])"
    using prior_flag_obj by blast
  show "\<exists>w'. run_once en w = (None, w') \<and> sent w' = sent w \<and>
          persisted w' ''sale_active'' = Some (JBool (ds \<noteq> []))"
    using sa by (simp add: run_once_polls [OF assms st] then_do_simps persisted_new_state)
qed

text \<open>
  \<^bold>\<open>C7.\<close> If the state file records an active sale and the cycle polls at least one
  deal, the cycle sends nothing and persists \<^verbatim>\<open>sale_active = true\<close> again. And a cycle that
  has returned changes nothing when it is run again in the same environment: it returns,
  sends nothing more and leaves the state file as the first run wrote it.
\<close>

theorem rerun_is_idempotent:
  "(polls en ds dp dv \<and> ds \<noteq> [] \<and> prior_flag w = Some True \<longrightarrow>
      (\<exists>w'. run_once en w = (None, w') \<and> sent w' = sent w \<and>
            persisted w' ''sale_active'' = Some (JBool True))) \<and>
   (run_once en w = (None, w1) \<longrightarrow> run_once en w1 = (None, w1))"
proof (intro conjI impI)
  assume a: "polls en ds dp dv \<and> ds \<noteq> [] \<and> prior_flag w = Some True"
  then obtain st where st: "load_state (state_file w) = JObj st"
    and sa: "truthy (lookup st ''sale_active'')"
    using prior_flag_obj by blast
  from a have p: "polls en ds dp dv" and ne: "ds \<noteq> []" by simp_all
  show "\<exists>w'. run_once en w = (None, w') \<and> sent w' = sent w \<and>
          persisted w' ''sale_active'' = Some (JBool True)"
    using sa ne by (simp add: run_once_polls [OF p st] then_do_simps persisted_new_state)
next
  assume r: "run_once en w = (None, w1)"
  from run_once_returns [OF r] show "run_once en w1 = (None, w1)"
  proof
    assume "\<not> truthy (http_get_json (http_response en)) \<and> w1 = w"
    then show ?thesis using r by simp
  next
    assume "\<exists>ds dp dv st. polls en ds dp dv \<and> load_state (state_file w) = JObj st \<and>
            state_file w1 = Content (JObj (new_state st ds)) \<and>
            w1\<lparr>state_file := state_file w\<rparr> = w\<lparr>sent := sent w1\<rparr>"
    then obtain ds dp dv st where p: "polls en ds dp dv"
      and f1: "state_file w1 = Content (JObj (new_state st ds))" by blast
    have st1: "load_state (state_file w1) = JObj (new_state st ds)"
      unfolding f1 by (rule load_state_both_keys) (rule dom_new_state)+
    have sa: "lookup (new_state st ds) ''sale_active'' = JBool (ds \<noteq> [])"
      by (simp add: lookup_def new_state_def update_conv')
    have "w1\<lparr>state_file := Content (JObj (new_state st ds))\<rparr> = w1"
      using f1 by (cases w1) simp
    then show ?thesis
      by (simp add: run_once_polls [OF p st1] sa then_do_simps new_state_idem)
  qed
qed

subsection \<open>A feed with one discounted variant, evaluated\<close>

lemmas float_eval = rnd_def binade_def round_half_even_def pow2_def pow10_def compute_bitlen Let_def

lemmas str_eval = float_of_str_def number_of_str_def exponent_of_def take_sign_def strip_def
  lower_def lower_char_def digitpart_def digits_val_def is_digit_def digit_of_def is_space_def
  int_of_str_def digit_char_def str_of_int_def

lemma float_of_str_40: "float_of_str ''40.00'' = Some (Fin 40)"
  by (simp add: float_eval str_eval)

lemma float_of_str_80: "float_of_str ''80.00'' = Some (Fin 80)"
  by (simp add: float_eval str_eval)

lemma calc_discount_80_40: "calc_discount (Fin 80) (Fin 40) = Inr (Fin 40, Fin 50)"
  by (simp add: calc_discount_def fle_def feq_def float_eval)

lemma json_content_type: "contains ''json'' (lower ''application/json; charset=utf-8'')"
  "contains ''json'' (lower ''application/json'')"
  by (simp_all add: lower_def lower_char_def)

lemma polls_hoodie: "polls hoodie_env [hoodie_deal] 1 1"
  by (simp add: polls_def hoodie_env_def hoodie_feed_def http_get_json_def json_content_type
      collect_deals_def product_step_def variant_step_def collect_init_def hoodie_deal_def
      float_of_str_40 float_of_str_80 calc_discount_80_40 fgt_def)

lemma polls_plain: "polls plain_env [] 0 0"
  by (simp add: polls_def plain_env_def http_get_json_def json_content_type
      collect_deals_def product_step_def variant_step_def collect_init_def float_of_str_40)

lemma prior_flag_quiet: "prior_flag quiet_world = Some False"
  by (simp add: prior_flag_def quiet_world_def load_state_def default_state_def)

lemma prior_flag_active: "prior_flag active_world = Some True"
  by (simp add: prior_flag_def active_world_def load_state_def normalize_state_def)

lemma rank_deals_single: "rank_deals [d] = [d]"
  by (simp add: rank_deals_def py_sorted_def)

lemma example_worlds:
  "telegram hoodie_env m = None" "telegram plain_env m = None"
  "sent quiet_world = []" "sent active_world = []"
  by (simp_all add: hoodie_env_def plain_env_def quiet_world_def active_world_def)

theorem sale_transitions_witness:
  "polls hoodie_env [hoodie_deal] 1 1 \<and> prior_flag quiet_world = Some False \<and>
   (\<exists>w'. run_once hoodie_env quiet_world = (None, w') \<and>
         sent w' = [Sale_detected 1 1 1 [hoodie_deal], Further_info 1 0 []] \<and>
         persisted w' ''sale_active'' = Some (JBool True)) \<and>
   polls plain_env [] 0 0 \<and> prior_flag active_world = Some True \<and>
   (\<exists>w'. run_once plain_env active_world = (None, w') \<and> sent w' = [] \<and>
         persisted w' ''sale_active'' = Some (JBool False)) \<and>
   (\<exists>w'. run_once hoodie_env active_world = (None, w') \<and> sent w' = [] \<and>
         persisted w' ''sale_active'' = Some (JBool True))"
  using sale_transitions [OF polls_hoodie, of quiet_world]
    sale_transitions [OF polls_plain, of active_world]
    sale_transitions [OF polls_hoodie, of active_world] polls_hoodie polls_plain
  by (simp add: prior_flag_quiet prior_flag_active rank_deals_single example_worlds TOP_N_def)

theorem rerun_is_idempotent_witness:
  "polls hoodie_env [hoodie_deal] 1 1 \<and> prior_flag active_world = Some True \<and>
   (\<exists>w'. run_once hoodie_env active_world = (None, w') \<and> sent w' = sent active_world \<and>
         persisted w' ''sale_active'' = Some (JBool True) \<and>
         run_once hoodie_env w' = (None, w'))"
proof -
  obtain w' where w': "run_once hoodie_env active_world = (None, w')"
    "sent w' = sent active_world" "persisted w' ''sale_active'' = Some (JBool True)"
    using rerun_is_idempotent [of hoodie_env "[hoodie_deal]" 1 1 active_world]
      polls_hoodie prior_flag_active by auto
  have "run_once hoodie_env w' = (None, w')"
    using rerun_is_idempotent [of hoodie_env "[]" 0 0 active_world w'] w'(1) by blast
  then show ?thesis
    using w' polls_hoodie prior_flag_active by blast
qed

subsection \<open>The state file across a cycle\<close>

lemma load_state_obj: "load_state (Content (JObj a)) = JObj (with_defaults a)"
  by (simp add: load_state_def normalize_state_def with_defaults_def)

lemma map_of_with_defaults:
  "map_of (with_defaults a) k =
     (if k = ''sale_active'' \<and> map_of a k = None then Some (JBool False)
      else if k = ''last_signature'' \<and> map_of a k = None then Some (JStr '''')
      else map_of a k)"
  by (auto simp: with_defaults_def Let_def update_conv' dom_update map_of_eq_None_iff)

lemma filter_update_other:
  "\<forall>v. \<not> P (k, v) \<Longrightarrow> filter P (AList.update k v al) = filter P al"
  by (induction al) auto

lemma extra_fields_update:
  "k = ''sale_active'' \<or> k = ''last_signature'' \<Longrightarrow>
     extra_fields (AList.update k v al) = extra_fields al"
  unfolding extra_fields_def by (rule filter_update_other) auto

lemma extra_fields_with_defaults: "extra_fields (with_defaults a) = extra_fields a"
  by (simp add: with_defaults_def Let_def extra_fields_update)

lemma extra_fields_new_state: "extra_fields (new_state st ds) = extra_fields st"
  by (simp add: new_state_def extra_fields_update)

lemma map_of_new_state:
  "map_of (new_state st ds) k =
     (if k = ''last_signature'' then Some (JStr (signature_of (slice 0 TOP_N (rank_deals ds))))
      else if k = ''sale_active'' then Some (JBool (ds \<noteq> []))
      else map_of st k)"
  by (simp add: new_state_def update_conv')

lemma run_once_polls_closed:
  assumes "polls en ds dp dv" and "load_state (state_file w) = JObj st"
  shows "run_once en w =
     (case deliver_all en (due_messages (truthy (lookup st ''sale_active'')) ds dp dv) of
        (None, ms) \<Rightarrow>
          (None, w\<lparr>sent := sent w @ ms, state_file := Content (JObj (new_state st ds))\<rparr>)
      | (Some e, ms) \<Rightarrow> (Some e, w\<lparr>sent := sent w @ ms\<rparr>))"
proof (cases "\<not> truthy (lookup st ''sale_active'') \<and> ds \<noteq> []")
  case False
  then show ?thesis
    unfolding run_once_polls [OF assms] by (auto simp: due_messages_def then_do_simps)
next
  case True
  then show ?thesis
    unfolding run_once_polls [OF assms]
    by (auto simp: due_messages_def notify_sale_start_def telegram_send_def then_do_def
        split: option.splits)
qed

text \<open>No step of the extraction raises a \<^verbatim>\<open>RequestException\<close>.\<close>

lemma for_each_raises:
  assumes "for_each body xs s = Inl e" and "\<And>x t. body x t = Inl e \<Longrightarrow> P"
  shows P
  using assms by (induction xs arbitrary: s) (auto split: sum.splits)

lemma py_get_raises: "py_get x k = Inl e \<Longrightarrow> e = AttributeError"
  by (cases x) auto

lemma py_iter_raises: "py_iter x = Inl e \<Longrightarrow> e = TypeError"
  by (cases x) auto

lemma py_int_raises: "py_int x = Inl e \<Longrightarrow> e \<noteq> RequestException"
  by (induction x rule: py_int.induct) (auto split: option.splits)

lemma fdiv_raises: "fdiv x y = Inl e \<Longrightarrow> e = ZeroDivisionError"
  by (induction x y rule: fdiv.induct) (auto split: if_splits pyfloat.splits)

lemma calc_discount_raises: "calc_discount c p = Inl e \<Longrightarrow> e = ZeroDivisionError"
  by (auto simp: calc_discount_def split: if_splits sum.splits dest: fdiv_raises)

lemma variant_step_raises: "variant_step t l v s = Inl e \<Longrightarrow> e \<noteq> RequestException"
  by (auto simp: variant_step_def split: sum.splits option.splits if_splits
      dest: py_get_raises py_int_raises calc_discount_raises)

lemma product_step_raises: "product_step p s = Inl e \<Longrightarrow> e \<noteq> RequestException"
  by (auto simp: product_step_def split: sum.splits if_splits
      dest: py_get_raises py_iter_raises elim: for_each_raises dest!: variant_step_raises)

lemma collect_deals_raises: "collect_deals ps = Inl e \<Longrightarrow> e \<noteq> RequestException"
  by (auto simp: collect_deals_def split: sum.splits
      dest: py_iter_raises elim: for_each_raises dest!: product_step_raises)

text \<open>The three ways the first half of a cycle can go, whatever the world.\<close>

lemma poll_cases:
  "(\<not> truthy (http_get_json (http_response en)) \<and> (\<forall>w. run_once en w = (None, w))) \<or>
   (truthy (http_get_json (http_response en)) \<and>
      (\<exists>e. e \<noteq> RequestException \<and> (\<forall>w. run_once en w = (Some e, w)))) \<or>
   (\<exists>ds dp dv. polls en ds dp dv)"
proof (cases "truthy (http_get_json (http_response en))")
  case False
  then show ?thesis by (simp add: run_once_def)
next
  case True
  show ?thesis
  proof (cases "py_get (http_get_json (http_response en)) ''products''")
    case (Inl e)
    then show ?thesis using True py_get_raises [OF Inl] by (simp add: run_once_def)
  next
    case (Inr ps)
    show ?thesis
    proof (cases "collect_deals (if truthy ps then ps else JArr [])")
      case (Inl e)
      then show ?thesis using True Inr collect_deals_raises [OF Inl] by (simp add: run_once_def)
    next
      case (Inr r)
      then show ?thesis using True \<open>py_get (http_get_json (http_response en)) ''products'' = Inr ps\<close>
        by (cases r) (auto simp: polls_def)
    qed
  qed
qed

lemma polls_truthy: "polls en ds dp dv \<Longrightarrow> truthy (http_get_json (http_response en))"
  by (simp add: polls_def)

lemma polls_unique: "polls en ds dp dv \<Longrightarrow> polls en ds' dp' dv' \<Longrightarrow> ds' = ds"
  by (auto simp: polls_def split: sum.splits)

text \<open>
  \<^bold>\<open>C9.\<close> Let two cycles start in worlds that differ only in the state file, where both
  files hold dictionaries that agree under every key but \<^verbatim>\<open>last_signature\<close>, and let them
  meet the same environment. Then both return or both raise the same exception, both send
  the same messages, and afterwards the two state files still agree under every key but
  \<^verbatim>\<open>last_signature\<close>; when the cycles got data and returned, the two files agree under
  every key (the dictionaries are equal as Python compares them).
\<close>

theorem signature_is_diagnostic_only:
  assumes "state_file w = Content (JObj a)"
    and "w' = w\<lparr>state_file := Content (JObj b)\<rparr>"
    and "\<forall>k. k \<noteq> ''last_signature'' \<longrightarrow> map_of a k = map_of b k"
  shows "fst (run_once en w') = fst (run_once en w) \<and>
         sent (snd (run_once en w')) = sent (snd (run_once en w)) \<and>
         (\<forall>k. k \<noteq> ''last_signature'' \<longrightarrow>
               persisted (snd (run_once en w')) k = persisted (snd (run_once en w)) k) \<and>
         (truthy (http_get_json (http_response en)) \<and> fst (run_once en w) = None \<longrightarrow>
            (\<forall>k. persisted (snd (run_once en w')) k = persisted (snd (run_once en w)) k))"
proof -
  have pw: "\<forall>k. k \<noteq> ''last_signature'' \<longrightarrow> persisted w' k = persisted w k"
    using assms by (simp add: persisted_def)
  from poll_cases [of en] show ?thesis
  proof (elim disjE exE conjE)
    assume "\<forall>w. run_once en w = (None, w)" and "\<not> truthy (http_get_json (http_response en))"
    then show ?thesis using pw assms(2) by simp
  next
    fix e assume "\<forall>w. run_once en w = (Some e, w)"
    then show ?thesis using pw assms(2) by simp
  next
    fix ds dp dv assume p: "polls en ds dp dv"
    have sta: "load_state (state_file w) = JObj (with_defaults a)"
      using assms(1) by (simp add: load_state_obj)
    have stb: "load_state (state_file w') = JObj (with_defaults b)"
      using assms(2) by (simp add: load_state_obj)
    have sa: "lookup (with_defaults b) ''sale_active'' = lookup (with_defaults a) ''sale_active''"
      using assms(3) by (simp add: lookup_def map_of_with_defaults)
    have other: "\<forall>k. k \<noteq> ''last_signature'' \<longrightarrow>
        map_of (with_defaults b) k = map_of (with_defaults a) k"
      using assms(3) by (auto simp: map_of_with_defaults)
    obtain r ms where d:
      "deliver_all en (due_messages (truthy (lookup (with_defaults a) ''sale_active'')) ds dp dv)
         = (r, ms)"
      by (cases "deliver_all en
          (due_messages (truthy (lookup (with_defaults a) ''sale_active'')) ds dp dv)")
    show ?thesis
      unfolding run_once_polls_closed [OF p sta] run_once_polls_closed [OF p stb] sa d
      using other pw assms(2)
      by (cases r) (simp_all add: persisted_def map_of_new_state)
  qed
qed

text \<open>
  \<^bold>\<open>C10.\<close> When the state file holds a dictionary, it holds a dictionary after the cycle,
  however the cycle ends, and the entries under keys other than \<^verbatim>\<open>sale_active\<close> and
  \<^verbatim>\<open>last_signature\<close> are the same entries, in the same order. A cycle that polls the deals
  \<open>ds\<close> and returns has written the two fields: the flag \<^verbatim>\<open>sale_now\<close> and the signature.
\<close>

theorem extra_keys_preserved:
  assumes "state_file w = Content (JObj st)"
  shows "\<exists>st'. state_file (snd (run_once en w)) = Content (JObj st') \<and>
           extra_fields st' = extra_fields st \<and>
           (polls en ds dp dv \<and> fst (run_once en w) = None \<longrightarrow>
              map_of st' ''sale_active'' = Some (JBool (ds \<noteq> [])) \<and>
              map_of st' ''last_signature'' =
                Some (JStr (signature_of (take TOP_N (rank_deals ds)))))"
proof -
  from poll_cases [of en] show ?thesis
  proof (elim disjE exE conjE)
    assume "\<forall>w. run_once en w = (None, w)" and "\<not> truthy (http_get_json (http_response en))"
    then show ?thesis using assms polls_truthy [of en ds dp dv] by auto
  next
    fix e assume "\<forall>w. run_once en w = (Some e, w)"
    then show ?thesis using assms by simp
  next
    fix ds' dp' dv' assume p: "polls en ds' dp' dv'"
    have st: "load_state (state_file w) = JObj (with_defaults st)"
      using assms by (simp add: load_state_obj)
    have same: "polls en ds dp dv \<longrightarrow> ds' = ds"
      using p polls_unique by blast
    obtain r ms where d:
      "deliver_all en (due_messages (truthy (lookup (with_defaults st) ''sale_active'')) ds' dp' dv')
         = (r, ms)"
      by (cases "deliver_all en
          (due_messages (truthy (lookup (with_defaults st) ''sale_active'')) ds' dp' dv')")
    show ?thesis
      unfolding run_once_polls_closed [OF p st] d
      using assms same
      by (cases r) (auto simp: map_of_new_state extra_fields_new_state
          extra_fields_with_defaults slice_def)
  qed
qed

subsection \<open>The signature\<close>





lemma fmt2_80: "fmt2 (Fin 80) = ''80.00''"
  by (simp add: fmt2_def float_eval str_eval)

lemma fmt2_40: "fmt2 (Fin 40) = ''40.00''"
  by (simp add: fmt2_def float_eval str_eval)

lemma signature_hoodie: "signature_of [hoodie_deal] = ''1|80.00>40.00''"
  by (simp add: signature_of_def hoodie_deal_def fmt2_80 fmt2_40 str_eval)

lemma hoodie_run_returns: "prior_flag w = Some b \<Longrightarrow> \<exists>w'. run_once hoodie_env w = (None, w')"
proof -
  assume "prior_flag w = Some b"
  then obtain st where st: "load_state (state_file w) = JObj st"
    using prior_flag_obj by blast
  show ?thesis
    unfolding run_once_polls [OF polls_hoodie st]
    by (simp add: notify_sale_start_delivered example_worlds then_do_simps)
qed


subsection \<open>Worlds with another signature and with another field, evaluated\<close>

lemma prior_flag_noted: "prior_flag noted_world = Some False"
  by (simp add: prior_flag_def noted_world_def load_state_def normalize_state_def)

theorem signature_is_diagnostic_only_witness:
  "fst (run_once hoodie_env resigned_world) = fst (run_once hoodie_env active_world) \<and>
   sent (snd (run_once hoodie_env resigned_world)) = sent (snd (run_once hoodie_env active_world)) \<and>
   persisted (snd (run_once hoodie_env resigned_world)) ''sale_active''
     = persisted (snd (run_once hoodie_env active_world)) ''sale_active'' \<and>
   persisted (snd (run_once hoodie_env resigned_world)) ''last_signature''
     = persisted (snd (run_once hoodie_env active_world)) ''last_signature''"
proof -
  have "truthy (http_get_json (http_response hoodie_env))"
    using polls_hoodie by (rule polls_truthy)
  moreover have "fst (run_once hoodie_env active_world) = None"
    using hoodie_run_returns [OF prior_flag_active] by auto
  ultimately show ?thesis
    using signature_is_diagnostic_only
      [of active_world "[(''sale_active'', JBool True), (''last_signature'', JStr ''1|80.00>40.00'')]"
          resigned_world "[(''sale_active'', JBool True), (''last_signature'', JStr ''7|9.00>1.00'')]"
          hoodie_env]
    by (simp add: resigned_world_def active_world_def)
qed

theorem extra_keys_preserved_witness:
  "\<exists>st'. state_file (snd (run_once hoodie_env noted_world)) = Content (JObj st') \<and>
         extra_fields st' = [(''note'', JStr ''keep'')] \<and>
         map_of st' ''sale_active'' = Some (JBool True) \<and>
         map_of st' ''last_signature'' = Some (JStr ''1|80.00>40.00'')"
proof -
  have "fst (run_once hoodie_env noted_world) = None"
    using hoodie_run_returns [OF prior_flag_noted] by auto
  then show ?thesis
    using extra_keys_preserved
      [of noted_world "[(''note'', JStr ''keep''), (''sale_active'', JBool False)]"
          hoodie_env "[hoodie_deal]" 1 1] polls_hoodie signature_hoodie
    by (simp add: noted_world_def extra_fields_def rank_deals_single TOP_N_def)
qed

subsection \<open>The retries\<close>

lemma run_once_request_exception:
  assumes "fst (run_once en w) = Some RequestException"
  shows "\<exists>m. telegram en m = Some RequestException"
proof -
  from poll_cases [of en] assms obtain ds dp dv where p: "polls en ds dp dv"
    by auto
  show ?thesis
  proof (cases "py_get (load_state (state_file w)) ''sale_active''")
    case (Inl e)
    then have "e = AttributeError" by (rule py_get_raises)
    then have "run_once en w = (Some AttributeError, w)"
      using p Inl by (auto simp: polls_def run_once_def Let_def split: sum.splits)
    then show ?thesis using assms by simp
  next
    case (Inr sa)
    then obtain st where st: "load_state (state_file w) = JObj st"
      by (cases "load_state (state_file w)") auto
    show ?thesis
      using assms unfolding run_once_polls [OF p st]
      by (auto simp: then_do_def notify_sale_start_def telegram_send_def
          split: if_splits option.splits)
  qed
qed

lemma main_unrolled:
  "main envs w =
     (case run_once (envs 0) w of
        (None, w1) \<Rightarrow> (None, w1)
      | (Some e1, w1) \<Rightarrow>
          (case run_once (envs 1) (sleep (backoff e1 1) w1) of
             (None, w2) \<Rightarrow> (None, w2)
           | (Some e2, w2) \<Rightarrow> run_once (envs 2) (sleep (backoff e2 2) w2)))"
proof -
  have upt: "[0..<MAX_ATTEMPTS] = [0, 1, 2]"
    by (simp add: MAX_ATTEMPTS_def upt_conv_Cons)
  show ?thesis
    unfolding main_def upt
    by (auto simp: backoff_def MAX_ATTEMPTS_def mult_2_right split: prod.splits option.splits)
qed

text \<open>
  \<^bold>\<open>C5\<close> (as amended). \<^verbatim>\<open>main\<close> makes at most three attempts. After a first or second
  attempt that raises, it sleeps: \<^verbatim>\<open>RETRY_SLEEP_SECONDS\<close> times the number of the attempt
  for a \<^verbatim>\<open>RequestException\<close>, \<^verbatim>\<open>RETRY_SLEEP_SECONDS\<close> for any other exception; then it
  tries again. The outcome of the third attempt is the outcome of \<^verbatim>\<open>main\<close>: its exception
  propagates and nothing is slept after it. A \<^verbatim>\<open>RequestException\<close> can only come from the
  delivery of a message: a request for the feed that fails (network error, timeout) makes
  the cycle return quietly, so that nothing is slept and nothing is retried.
\<close>

theorem retry_policy:
  "main envs w =
     (case run_once (envs 0) w of
        (None, w1) \<Rightarrow> (None, w1)
      | (Some e1, w1) \<Rightarrow>
          (case run_once (envs 1) (sleep (backoff e1 1) w1) of
             (None, w2) \<Rightarrow> (None, w2)
           | (Some e2, w2) \<Rightarrow> run_once (envs 2) (sleep (backoff e2 2) w2))) \<and>
   (fst (run_once en w) = Some RequestException \<longrightarrow> (\<exists>m. telegram en m = Some RequestException)) \<and>
   (http_response (envs 0) = Request_failed \<longrightarrow> main envs w = (None, w))"
proof (intro conjI impI)
  show "main envs w =
     (case run_once (envs 0) w of
        (None, w1) \<Rightarrow> (None, w1)
      | (Some e1, w1) \<Rightarrow>
          (case run_once (envs 1) (sleep (backoff e1 1) w1) of
             (None, w2) \<Rightarrow> (None, w2)
           | (Some e2, w2) \<Rightarrow> run_once (envs 2) (sleep (backoff e2 2) w2)))"
    by (rule main_unrolled)
next
  assume "fst (run_once en w) = Some RequestException"
  then show "\<exists>m. telegram en m = Some RequestException"
    by (rule run_once_request_exception)
next
  assume "http_response (envs 0) = Request_failed"
  then have "no_data (http_response (envs 0))" by (simp add: no_data_def)
  then show "main envs w = (None, w)"
    by (simp add: run_once_no_data main_first_returns)
qed

lemma polls_telegram_update: "polls (en\<lparr>telegram := t\<rparr>) ds dp dv = polls en ds dp dv"
  by (simp add: polls_def)

lemma run_once_undelivered:
  assumes "polls en ds dp dv" and "ds \<noteq> []" and "prior_flag w = Some False"
    and "\<forall>m. telegram en m = Some e"
  shows "run_once en w = (Some e, w)"
proof -
  from assms(3) obtain st where st: "load_state (state_file w) = JObj st"
    and sa: "\<not> truthy (lookup st ''sale_active'')"
    using prior_flag_obj by blast
  show ?thesis
    using assms(2,4) sa
    by (simp add: run_once_polls [OF assms(1) st] notify_sale_start_def telegram_send_def
        then_do_def)
qed

lemma polls_hoodie_Suc: "polls hoodie_env [hoodie_deal] (Suc 0) (Suc 0)"
  using polls_hoodie by simp

lemma prior_flag_sleep: "prior_flag (sleep n w) = prior_flag w"
  by (simp add: prior_flag_def sleep_def)

theorem retry_policy_witness:
  "main (\<lambda>i. telegram_down_env) quiet_world
     = (Some RequestException, sleep 6 (sleep 3 quiet_world)) \<and>
   main (\<lambda>i. no_token_env) quiet_world = (Some KeyError, sleep 3 (sleep 3 quiet_world)) \<and>
   main (\<lambda>i. if i = 0 then telegram_down_env else unreachable_env) quiet_world
     = (None, sleep 3 quiet_world) \<and>
   slept (sleep 6 (sleep 3 quiet_world)) = [3, 6] \<and>
   telegram telegram_down_env Sale_ended = Some RequestException \<and>
   main (\<lambda>i. unreachable_env) quiet_world = (None, quiet_world)"
proof -
  have down: "run_once telegram_down_env w = (Some RequestException, w)"
    if "prior_flag w = Some False" for w
    using that by (intro run_once_undelivered [where ds = "[hoodie_deal]" and dp = 1 and dv = 1])
      (simp_all add: telegram_down_env_def polls_telegram_update polls_hoodie_Suc)
  have token: "run_once no_token_env w = (Some KeyError, w)"
    if "prior_flag w = Some False" for w
    using that by (intro run_once_undelivered [where ds = "[hoodie_deal]" and dp = 1 and dv = 1])
      (simp_all add: no_token_env_def polls_telegram_update polls_hoodie_Suc)
  have unreachable: "run_once unreachable_env w = (None, w)" for w
    by (rule run_once_no_data) (simp add: unreachable_env_def no_data_def)
  have q: "prior_flag (sleep n quiet_world) = Some False" for n
    by (simp add: prior_flag_sleep prior_flag_quiet)
  have m1: "main (\<lambda>i. telegram_down_env) quiet_world
      = (Some RequestException, sleep 6 (sleep 3 quiet_world))"
    using retry_policy [of "\<lambda>i. telegram_down_env" quiet_world telegram_down_env]
    by (simp add: down q prior_flag_sleep prior_flag_quiet backoff_def RETRY_SLEEP_SECONDS_def)
  have m2: "main (\<lambda>i. no_token_env) quiet_world = (Some KeyError, sleep 3 (sleep 3 quiet_world))"
    using retry_policy [of "\<lambda>i. no_token_env" quiet_world no_token_env]
    by (simp add: token q prior_flag_sleep prior_flag_quiet backoff_def RETRY_SLEEP_SECONDS_def)
  have m3: "main (\<lambda>i. if i = 0 then telegram_down_env else unreachable_env) quiet_world
      = (None, sleep 3 quiet_world)"
    using retry_policy [of "\<lambda>i. if i = 0 then telegram_down_env else unreachable_env"
        quiet_world unreachable_env]
    by (simp add: down unreachable prior_flag_quiet backoff_def RETRY_SLEEP_SECONDS_def)
  have h: "http_response unreachable_env = Request_failed"
    by (simp add: unreachable_env_def)
  have m4: "main (\<lambda>i. unreachable_env) quiet_world = (None, quiet_world)"
    using retry_policy [of "\<lambda>i. unreachable_env" quiet_world unreachable_env] h
    by blast
  have s: "slept (sleep 6 (sleep 3 quiet_world)) = [3, 6]"
    by (simp add: sleep_def quiet_world_def)
  have t: "telegram telegram_down_env Sale_ended = Some RequestException"
    by (simp add: telegram_down_env_def)
  show ?thesis using m1 m2 m3 m4 s t by blast
qed

theorem fetch_failure_not_retried:
  "main (\<lambda>i. unreachable_env) quiet_world = (None, quiet_world) \<and>
   slept (snd (main (\<lambda>i. unreachable_env) quiet_world)) = []"
proof -
  have "run_once unreachable_env quiet_world = (None, quiet_world)"
    by (rule run_once_no_data) (simp add: unreachable_env_def no_data_def)
  then have "main (\<lambda>i. unreachable_env) quiet_world = (None, quiet_world)"
    by (rule main_first_returns)
  then show ?thesis by (simp add: quiet_world_def)
qed

subsection \<open>Ranking\<close>

lemma flt_irrefl: "\<not> flt x x"
  by (cases x) auto

lemma flt_trans: "flt x y \<Longrightarrow> flt y z \<Longrightarrow> flt x z"
  by (cases x; cases y; cases z) auto

lemma flt_asym: "flt x y \<Longrightarrow> \<not> flt y x"
  by (cases x; cases y) auto

lemma flt_total: "x \<noteq> NaN \<Longrightarrow> y \<noteq> NaN \<Longrightarrow> flt x y \<or> x = y \<or> flt y x"
  by (cases x; cases y) auto

lemma flt_fneg: "flt (fneg x) (fneg y) = flt y x"
  by (cases x; cases y) auto

lemma fneg_eq_iff: "fneg x = fneg y \<longleftrightarrow> x = y"
  by (cases x; cases y) auto

lemma fneg_NaN_iff: "fneg x = NaN \<longleftrightarrow> x = NaN"
  by (cases x) auto

lemma key_lt_irrefl: "\<not> key_lt k k"
  by (cases k) (auto simp: feq_def flt_irrefl)

lemma key_lt_comparable:
  assumes "comparable a" and "comparable b"
  shows "key_lt (rank_key_of b) (rank_key_of a) =
     (if discount_pct b \<noteq> discount_pct a then flt (discount_pct a) (discount_pct b)
      else if discount_abs b \<noteq> discount_abs a then flt (discount_abs a) (discount_abs b)
      else if price b \<noteq> price a then flt (price b) (price a)
      else variant_id b < variant_id a)"
  using assms
  by (simp add: rank_key_of_def comparable_def feq_def flt_fneg fneg_eq_iff fneg_NaN_iff)

lemma flt_iff_not_flt: "x \<noteq> NaN \<Longrightarrow> y \<noteq> NaN \<Longrightarrow> x \<noteq> y \<Longrightarrow> flt x y \<longleftrightarrow> \<not> flt y x"
  using flt_total [of x y] flt_asym [of x y] by blast

lemma key_lt_precedes:
  assumes "comparable a" and "comparable b"
  shows "key_lt (rank_key_of b) (rank_key_of a) \<longleftrightarrow> \<not> precedes a b"
proof (cases "discount_pct b = discount_pct a")
  case False
  then have "flt (discount_pct a) (discount_pct b) \<longleftrightarrow> \<not> flt (discount_pct b) (discount_pct a)"
    using assms by (intro flt_iff_not_flt) (auto simp: comparable_def)
  then show ?thesis
    using False by (auto simp: key_lt_comparable [OF assms] precedes_def)
next
  case pct: True
  show ?thesis
  proof (cases "discount_abs b = discount_abs a")
    case False
    then have "flt (discount_abs a) (discount_abs b) \<longleftrightarrow> \<not> flt (discount_abs b) (discount_abs a)"
      using assms by (intro flt_iff_not_flt) (auto simp: comparable_def)
    then show ?thesis
      using False pct by (auto simp: key_lt_comparable [OF assms] precedes_def flt_irrefl)
  next
    case ab: True
    show ?thesis
    proof (cases "price b = price a")
      case False
      then have "flt (price b) (price a) \<longleftrightarrow> \<not> flt (price a) (price b)"
        using assms by (intro flt_iff_not_flt) (auto simp: comparable_def)
      then show ?thesis
        using False pct ab by (auto simp: key_lt_comparable [OF assms] precedes_def flt_irrefl)
    next
      case True
      then show ?thesis
        using pct ab by (auto simp: key_lt_comparable [OF assms] precedes_def flt_irrefl)
    qed
  qed
qed

lemma precedes_total: "comparable a \<Longrightarrow> comparable b \<Longrightarrow> precedes a b \<or> precedes b a"
  using flt_total [of "discount_pct a" "discount_pct b"]
    flt_total [of "discount_abs a" "discount_abs b"] flt_total [of "price a" "price b"]
  by (auto simp: precedes_def comparable_def)

lemma precedes_trans: "precedes a b \<Longrightarrow> precedes b c \<Longrightarrow> precedes a c"
  unfolding precedes_def
  by (elim disjE conjE) (auto dest: flt_trans simp: flt_irrefl)

lemma precedes_antisym: "precedes a b \<Longrightarrow> precedes b a \<Longrightarrow> rank_key_of a = rank_key_of b"
  unfolding precedes_def rank_key_of_def
  by (elim disjE conjE) (auto dest: flt_asym simp: flt_irrefl)

lemma set_insort_by: "set (insort_by lt x xs) = insert x (set xs)"
  by (induction xs) auto

lemma set_py_sorted: "set (py_sorted key lt xs) = set xs"
  by (induction xs) (auto simp: py_sorted_def set_insort_by)

lemma sorted_insort_by:
  assumes "sorted_wrt le ys" and "x \<in> A" and "set ys \<subseteq> A"
    and "\<And>a b. a \<in> A \<Longrightarrow> b \<in> A \<Longrightarrow> lt a b \<longleftrightarrow> \<not> le b a"
    and "\<And>a b. a \<in> A \<Longrightarrow> b \<in> A \<Longrightarrow> le a b \<or> le b a"
    and "\<And>a b c. le a b \<Longrightarrow> le b c \<Longrightarrow> le a c"
  shows "sorted_wrt le (insort_by lt x ys)"
  using assms(1,3)
proof (induction ys)
  case Nil
  then show ?case by simp
next
  case (Cons y ys)
  show ?case
  proof (cases "lt y x")
    case True
    then have "le y x" using assms(2,4,5) Cons.prems(2) by auto
    then show ?thesis using True Cons by (auto simp: set_insort_by)
  next
    case False
    then have "le x y" using assms(2,4) Cons.prems(2) by auto
    then have "\<forall>z\<in>set ys. le x z" using Cons.prems(1) assms(6) by auto
    then show ?thesis using False \<open>le x y\<close> Cons.prems(1) by simp
  qed
qed

lemma sorted_py_sorted:
  assumes "set xs \<subseteq> A"
    and "\<And>a b. a \<in> A \<Longrightarrow> b \<in> A \<Longrightarrow> lt (key a) (key b) \<longleftrightarrow> \<not> le b a"
    and "\<And>a b. a \<in> A \<Longrightarrow> b \<in> A \<Longrightarrow> le a b \<or> le b a"
    and "\<And>a b c. le a b \<Longrightarrow> le b c \<Longrightarrow> le a c"
  shows "sorted_wrt le (py_sorted key lt xs)"
  using assms(1)
proof (induction xs)
  case Nil
  then show ?case by (simp add: py_sorted_def)
next
  case (Cons x xs)
  have "sorted_wrt le (insort_by (\<lambda>a b. lt (key a) (key b)) x (py_sorted key lt xs))"
  proof (rule sorted_insort_by [where A = A])
    show "sorted_wrt le (py_sorted key lt xs)" using Cons by simp
    show "x \<in> A" using Cons.prems by simp
    show "set (py_sorted key lt xs) \<subseteq> A" using Cons.prems by (simp add: set_py_sorted)
  qed (use assms(2,3,4) in blast)+
  then show ?case by (simp add: py_sorted_def)
qed

lemma filter_insort_by:
  assumes "\<And>y. key y = key x \<Longrightarrow> \<not> lt y x"
  shows "filter (\<lambda>d. key d = k) (insort_by lt x ys) =
           (if key x = k then x # filter (\<lambda>d. key d = k) ys else filter (\<lambda>d. key d = k) ys)"
  using assms by (induction ys) auto

lemma stable_py_sorted:
  assumes "\<And>k. \<not> lt k k"
  shows "filter (\<lambda>d. key d = k) (py_sorted key lt xs) = filter (\<lambda>d. key d = k) xs"
proof (induction xs)
  case Nil
  then show ?case by (simp add: py_sorted_def)
next
  case (Cons x xs)
  have "filter (\<lambda>d. key d = k) (insort_by (\<lambda>a b. lt (key a) (key b)) x (py_sorted key lt xs)) =
      (if key x = k then x # filter (\<lambda>d. key d = k) (py_sorted key lt xs)
       else filter (\<lambda>d. key d = k) (py_sorted key lt xs))"
    by (rule filter_insort_by) (simp add: assms)
  then show ?case using Cons by (simp add: py_sorted_def)
qed

lemma sorted_rank_deals:
  assumes "\<forall>d\<in>set ds. comparable d"
  shows "sorted_wrt precedes (rank_deals ds)"
  unfolding rank_deals_def
proof (rule sorted_py_sorted [where A = "{d. comparable d}"])
  show "set ds \<subseteq> {d. comparable d}" using assms by auto
  show "key_lt (rank_key_of a) (rank_key_of b) \<longleftrightarrow> \<not> precedes b a"
    if "a \<in> {d. comparable d}" "b \<in> {d. comparable d}" for a b
    using that key_lt_precedes [of b a] by simp
  show "precedes a b \<or> precedes b a"
    if "a \<in> {d. comparable d}" "b \<in> {d. comparable d}" for a b
    using that precedes_total by simp
  show "precedes a c" if "precedes a b" "precedes b c" for a b c
    using that by (rule precedes_trans)
qed

lemma stable_rank_deals:
  "filter (\<lambda>d. rank_key_of d = k) (rank_deals ds) = filter (\<lambda>d. rank_key_of d = k) ds"
  unfolding rank_deals_def by (rule stable_py_sorted) (rule key_lt_irrefl)

text \<open>
  \<^bold>\<open>C6\<close> (as amended). For every list of deals whose percentage discount, absolute
  discount and price are numbers (none is NaN), \<^verbatim>\<open>rank_deals\<close> returns a permutation of the
  list that is ordered by \<open>precedes\<close>: percentage discount descending, then absolute discount
  descending, then price ascending, then variant identifier ascending. Deals with the same
  key keep the order they had in the input. On these deals \<open>precedes\<close> is a total order of
  the keys: any two deals are ordered, the order is transitive, and two deals ordered both
  ways have the same key. The result is a function of the input list, which is a value and
  is not changed.
\<close>

theorem ranking_is_total_and_stable:
  assumes "\<forall>d\<in>set ds. comparable d"
  shows "mset (rank_deals ds) = mset ds \<and>
         sorted_wrt precedes (rank_deals ds) \<and>
         (\<forall>k. filter (\<lambda>d. rank_key_of d = k) (rank_deals ds) = filter (\<lambda>d. rank_key_of d = k) ds) \<and>
         (\<forall>a\<in>set ds. \<forall>b\<in>set ds. precedes a b \<or> precedes b a) \<and>
         (\<forall>a b c. precedes a b \<and> precedes b c \<longrightarrow> precedes a c) \<and>
         (\<forall>a b. precedes a b \<and> precedes b a \<longrightarrow> rank_key_of a = rank_key_of b)"
proof (intro conjI allI ballI impI)
  show "mset (rank_deals ds) = mset ds" by (rule mset_rank_deals)
  show "sorted_wrt precedes (rank_deals ds)" using assms by (rule sorted_rank_deals)
  show "filter (\<lambda>d. rank_key_of d = k) (rank_deals ds) = filter (\<lambda>d. rank_key_of d = k) ds" for k
    by (rule stable_rank_deals)
  show "precedes a b \<or> precedes b a" if "a \<in> set ds" "b \<in> set ds" for a b
    using that assms by (intro precedes_total) auto
  show "precedes a c" if "precedes a b \<and> precedes b c" for a b c
    using that precedes_trans by blast
  show "rank_key_of a = rank_key_of b" if "precedes a b \<and> precedes b a" for a b
    using that precedes_antisym by blast
qed

lemma float_of_str_inf: "float_of_str ''inf'' = Some PInf"
  by (simp add: str_eval)

lemma rnd_1: "rnd 1 = Fin 1"
  by (simp add: float_eval)

lemma calc_discount_inf: "calc_discount PInf (Fin 1) = Inr (PInf, NaN)"
  by (simp add: calc_discount_def fle_def feq_def)

lemma collect_boundless:
  "collect_deals boundless_feed = Inr ([boundless_deal 2, boundless_deal 1], 1, 2)"
  by (simp add: collect_deals_def boundless_feed_def product_step_def variant_step_def
      collect_init_def boundless_deal_def float_of_str_inf rnd_1 calc_discount_inf fgt_def)

theorem ranking_breaks_on_nan:
  "collect_deals boundless_feed = Inr ([boundless_deal 2, boundless_deal 1], 1, 2) \<and>
   map variant_id (rank_deals [boundless_deal 2, boundless_deal 1]) = [2, 1] \<and>
   map variant_id (rank_deals [boundless_deal 1, boundless_deal 2]) = [1, 2] \<and>
   \<not> key_lt (rank_key_of (boundless_deal 1)) (rank_key_of (boundless_deal 2)) \<and>
   \<not> key_lt (rank_key_of (boundless_deal 2)) (rank_key_of (boundless_deal 1))"
  by (simp add: collect_boundless rank_deals_def py_sorted_def rank_key_of_def boundless_deal_def
      feq_def)

theorem ranking_is_total_and_stable_witness:
  "comparable hoodie_deal \<and> comparable cheap_deal \<and>
   rank_deals [hoodie_deal, cheap_deal] = [cheap_deal, hoodie_deal] \<and>
   precedes cheap_deal hoodie_deal \<and>
   sorted_wrt precedes (rank_deals [hoodie_deal, cheap_deal])"
proof -
  have c: "comparable hoodie_deal" "comparable cheap_deal"
    by (simp_all add: comparable_def hoodie_deal_def cheap_deal_def)
  have r: "rank_deals [hoodie_deal, cheap_deal] = [cheap_deal, hoodie_deal]"
    by (simp add: rank_deals_def py_sorted_def rank_key_of_def hoodie_deal_def cheap_deal_def
        feq_def)
  have "sorted_wrt precedes (rank_deals [hoodie_deal, cheap_deal])"
    using ranking_is_total_and_stable [of "[hoodie_deal, cheap_deal]"] c by simp
  moreover from this have "precedes cheap_deal hoodie_deal" by (simp add: r)
  ultimately show ?thesis using c r by simp
qed

subsection \<open>The deal set as a function of the listed variants\<close>

lemma deal_set_Nil: "deal_set [] = []"
  by (simp add: deal_set_def)

lemma deal_set_snoc: "deal_set (es @ [e]) = deal_set es @ yield es e"
proof -
  have eq: "map (\<lambda>n. yield (take n (es @ [e])) ((es @ [e]) ! n)) [0..<length es] =
        map (\<lambda>n. yield (take n es) (es ! n)) [0..<length es]"
    by (rule map_cong) (simp_all add: nth_append)
  have "deal_set (es @ [e]) =
      concat (map (\<lambda>n. yield (take n (es @ [e])) ((es @ [e]) ! n)) [0..<length es])
      @ yield (take (length es) (es @ [e])) ((es @ [e]) ! length es)"
    by (simp add: deal_set_def del: take_append)
  then show ?thesis unfolding eq by (simp add: deal_set_def)
qed

lemma fdiv_returns: "y \<noteq> Fin 0 \<Longrightarrow> \<exists>r. fdiv x y = Inr r"
  by (cases x; cases y) auto

lemma calc_discount_returns: "calc_discount c p = Inr (fsub c p, percentage c p)"
proof (cases "fle c (Fin 0)")
  case True
  then show ?thesis by (simp add: calc_discount_def percentage_def)
next
  case False
  then have "c \<noteq> Fin 0" by (auto simp: fle_def feq_def)
  then obtain r where "fdiv (fsub c p) c = Inr r"
    using fdiv_returns by blast
  then show ?thesis using False by (simp add: calc_discount_def percentage_def)
qed

lemma py_get_obj: "py_get (JObj kvs) k = Inr (lookup kvs k)"
  by (simp add: lookup_def)

lemma py_get_not_obj: "(\<forall>kvs. v \<noteq> JObj kvs) \<Longrightarrow> py_get v k = Inl AttributeError"
  by (cases v) auto

text \<open>The body of the inner loop, by the verdict on its variant.\<close>

lemma variant_step_judge:
  "variant_step t l v s =
     (case judge v of
        Skipped \<Rightarrow> Inr s
      | Raises e \<Rightarrow> Inl e
      | Candidate i p c \<Rightarrow>
          if i \<in> seen_variant_ids s then Inr s
          else if fgt c p then
            Inr (s\<lparr>seen_variant_ids := insert i (seen_variant_ids s),
                   product_has_discount := True,
                   discounted_variants_count := discounted_variants_count s + 1,
                   deals := deals s @
                     [\<lparr>title = t, url = l, variant_id = i, price = p, compare_at = c,
                       discount_abs = fsub c p, discount_pct = percentage c p\<rparr>]\<rparr>)
          else Inr (s\<lparr>seen_variant_ids := insert i (seen_variant_ids s)\<rparr>))"
proof (cases "\<exists>kvs. v = JObj kvs")
  case False
  then have g: "py_get v k = Inl AttributeError" for k
    by (simp add: py_get_not_obj)
  have "judge v = Raises AttributeError"
    using False by (cases v) (auto simp: judge_def)
  then show ?thesis by (simp add: variant_step_def g)
next
  case True
  then obtain kvs where v: "v = JObj kvs" by blast
  show ?thesis
    unfolding v variant_step_def judge_def py_get_obj
    by (simp add: calc_discount_returns split: option.splits sum.splits)
qed

lemma collected_step:
  assumes "collected es s"
  shows "(case variant_step t l v s of
            Inl x \<Rightarrow> judge v = Raises x
          | Inr s' \<Rightarrow> collected (es @ [(t, l, judge v)]) s')"
proof (cases "judge v")
  case Skipped
  then show ?thesis
    using assms
    by (auto simp: variant_step_judge collected_def deal_set_snoc yield_def cand_id_def raises_def)
next
  case (Raises x)
  then show ?thesis by (simp add: variant_step_judge)
next
  case (Candidate i p c)
  then show ?thesis
    using assms
    by (auto simp: variant_step_judge collected_def deal_set_snoc yield_def cand_id_def raises_def)
qed

lemma collected_variants:
  assumes "collected es s"
  shows "(case for_each (variant_step t l) vs s of
            Inl x \<Rightarrow> \<exists>v\<in>set vs. judge v = Raises x
          | Inr s' \<Rightarrow> collected (es @ map (\<lambda>v. (t, l, judge v)) vs) s')"
  using assms
proof (induction vs arbitrary: es s)
  case Nil
  then show ?case by simp
next
  case (Cons v vs)
  show ?case
  proof (cases "variant_step t l v s")
    case (Inl x)
    then show ?thesis using collected_step [OF Cons.prems, where t = t and l = l and v = v] by simp
  next
    case (Inr s1)
    then have "collected (es @ [(t, l, judge v)]) s1"
      using collected_step [OF Cons.prems, where t = t and l = l and v = v] by simp
    from Cons.IH [OF this] show ?thesis
      using Inr by (auto split: sum.splits)
  qed
qed

lemma collected_frame:
  "collected es (s\<lparr>product_has_discount := b\<rparr>) = collected es s"
  "collected es (s\<lparr>discounted_products_count := n\<rparr>) = collected es s"
  by (simp_all add: collected_def)

lemma product_step_obj:
  "product_step (JObj kvs) s =
     (case py_iter (product_variants kvs) of
        Inl e \<Rightarrow> Inl e
      | Inr vl \<Rightarrow>
          (case for_each (variant_step (product_title kvs) (product_link kvs)) vl
                  (s\<lparr>product_has_discount := False\<rparr>) of
             Inl e \<Rightarrow> Inl e
           | Inr s' \<Rightarrow>
               Inr (if product_has_discount s'
                    then s'\<lparr>discounted_products_count := discounted_products_count s' + 1\<rparr>
                    else s')))"
  unfolding product_step_def product_variants_def product_title_def product_link_def py_get_obj
  by simp

lemma collected_product:
  assumes "collected es s"
  shows "(case product_step p s of
            Inl x \<Rightarrow> \<exists>e\<in>set (product_entries p). snd (snd e) = Raises x
          | Inr s' \<Rightarrow> collected (es @ product_entries p) s')"
proof (cases "\<exists>kvs. p = JObj kvs")
  case False
  then have g: "py_get p k = Inl AttributeError" for k
    by (simp add: py_get_not_obj)
  have pe: "product_entries p = [(JNull, MNSTRY_HOME, Raises AttributeError)]"
    using False by (cases p) (auto simp: product_entries_def)
  show ?thesis by (simp add: product_step_def g pe)
next
  case True
  then obtain kvs where p: "p = JObj kvs" by blast
  show ?thesis
  proof (cases "py_iter (product_variants kvs)")
    case (Inl x)
    then show ?thesis
      by (simp add: p product_step_obj product_entries_def)
  next
    case (Inr vl)
    have c: "collected es (s\<lparr>product_has_discount := False\<rparr>)"
      using assms by (simp add: collected_frame)
    show ?thesis
    proof (cases "for_each (variant_step (product_title kvs) (product_link kvs)) vl
                  (s\<lparr>product_has_discount := False\<rparr>)")
      case (Inl x)
      then have "\<exists>v\<in>set vl. judge v = Raises x"
        using collected_variants [OF c, where t = "product_title kvs"
            and l = "product_link kvs" and vs = vl] by simp
      then show ?thesis
        using Inl Inr by (auto simp: p product_step_obj product_entries_def)
    next
      case inner: (Inr s')
      then have "collected (es @ map (\<lambda>v. (product_title kvs, product_link kvs, judge v)) vl) s'"
        using collected_variants [OF c, where t = "product_title kvs"
            and l = "product_link kvs" and vs = vl] by simp
      then show ?thesis
        using inner Inr by (simp add: p product_step_obj product_entries_def collected_frame)
    qed
  qed
qed

lemma collected_products:
  assumes "collected es s"
  shows "(case for_each product_step ps s of
            Inl x \<Rightarrow> \<exists>e\<in>set (listing ps). snd (snd e) = Raises x
          | Inr s' \<Rightarrow> collected (es @ listing ps) s')"
  using assms
proof (induction ps arbitrary: es s)
  case Nil
  then show ?case by (simp add: listing_def)
next
  case (Cons p ps)
  show ?case
  proof (cases "product_step p s")
    case (Inl x)
    then show ?thesis
      using collected_product [OF Cons.prems, where p = p] by (auto simp: listing_def)
  next
    case (Inr s1)
    then have "collected (es @ product_entries p) s1"
      using collected_product [OF Cons.prems, where p = p] by simp
    from Cons.IH [OF this] show ?thesis
      using Inr by (auto simp: listing_def split: sum.splits)
  qed
qed

lemma collected_init: "collected [] collect_init"
  by (simp add: collected_def collect_init_def deal_set_Nil)

lemma collect_deals_listing:
  "(case collect_deals (JArr ps) of
      Inl x \<Rightarrow> \<exists>e\<in>set (listing ps). raises e
    | Inr r \<Rightarrow> fst r = deal_set (listing ps) \<and> snd (snd r) = length (deal_set (listing ps))
               \<and> \<not> (\<exists>e\<in>set (listing ps). raises e))"
proof (cases "for_each product_step ps collect_init")
  case (Inl x)
  then obtain e where e: "e \<in> set (listing ps)" "snd (snd e) = Raises x"
    using collected_products [OF collected_init, where ps = ps] by auto
  have "raises e" using e(2) by (simp add: raises_def)
  then have "\<exists>e\<in>set (listing ps). raises e"
    using e(1) by blast
  then show ?thesis using Inl by (simp add: collect_deals_def)
next
  case (Inr s)
  then have "collected (listing ps) s"
    using collected_products [OF collected_init, where ps = ps] by simp
  then show ?thesis using Inr by (simp add: collect_deals_def collected_def)
qed





lemma cand_id_yield: "d \<in> set (yield earlier e) \<Longrightarrow> cand_id e = Some (variant_id d)"
  by (auto simp: yield_def cand_id_def split: prod.splits verdict.splits if_splits)

lemma cand_id_SomeD: "cand_id e = Some k \<Longrightarrow> \<exists>t l p c. e = (t, l, Candidate k p c)"
  by (cases e) (auto simp: cand_id_def split: verdict.splits)

lemma yield_seen:
  assumes "Some k \<in> set (map cand_id earlier)" and "cand_id e = Some k"
  shows "yield earlier e = []"
proof -
  obtain t l p c where "e = (t, l, Candidate k p c)"
    using cand_id_SomeD [OF assms(2)] by blast
  then show ?thesis using assms(1) by (simp add: yield_def)
qed

lemma yield_unseen:
  assumes "Some k \<notin> set (map cand_id earlier)" and "cand_id e = Some k"
  shows "yield earlier e = yield [] e"
proof -
  obtain t l p c where "e = (t, l, Candidate k p c)"
    using cand_id_SomeD [OF assms(2)] by blast
  then show ?thesis using assms(1) by (simp add: yield_def)
qed

lemma find_None_set: "find P xs = None \<longleftrightarrow> \<not> (\<exists>x\<in>set xs. P x)"
  by (induction xs) auto

lemma find_Some_set: "find P xs = Some x \<Longrightarrow> x \<in> set xs \<and> P x"
  by (induction xs) (auto split: if_splits)

lemma find_snoc:
  "find P (xs @ [x]) = (case find P xs of Some y \<Rightarrow> Some y | None \<Rightarrow> if P x then Some x else None)"
  by (induction xs) auto

lemma deal_set_by_id:
  "filter (\<lambda>d. variant_id d = k) (deal_set es) =
     (case find (\<lambda>e. cand_id e = Some k) es of None \<Rightarrow> [] | Some e \<Rightarrow> yield [] e)"
proof (induction es rule: rev_induct)
  case Nil
  then show ?case by (simp add: deal_set_Nil)
next
  case (snoc e es)
  show ?case
  proof (cases "find (\<lambda>e. cand_id e = Some k) es")
    case None
    then have unseen: "Some k \<notin> set (map cand_id es)"
      by (auto simp: find_None_set)
    show ?thesis
    proof (cases "cand_id e = Some k")
      case True
      have "filter (\<lambda>d. variant_id d = k) (yield [] e) = yield [] e"
        using True by (auto simp: filter_id_conv dest: cand_id_yield)
      then show ?thesis
        using snoc None True yield_unseen [OF unseen True]
        by (simp add: deal_set_snoc find_snoc)
    next
      case False
      then have "filter (\<lambda>d. variant_id d = k) (yield es e) = []"
        by (auto simp: filter_empty_conv dest: cand_id_yield)
      then show ?thesis
        using snoc None False by (simp add: deal_set_snoc find_snoc)
    qed
  next
    case (Some e0)
    then have seen: "Some k \<in> set (map cand_id es)"
      using find_Some_set [OF Some] by force
    have "filter (\<lambda>d. variant_id d = k) (yield es e) = []"
    proof (cases "cand_id e = Some k")
      case True
      then show ?thesis using yield_seen [OF seen True] by simp
    next
      case False
      then show ?thesis by (auto simp: filter_empty_conv dest: cand_id_yield)
    qed
    then show ?thesis
      using snoc Some by (simp add: deal_set_snoc find_snoc)
  qed
qed

lemma yield_length: "length (yield earlier e) \<le> 1"
  by (auto simp: yield_def split: prod.splits verdict.splits)

lemma distinct_map_by_key:
  assumes "\<And>k. length (filter (\<lambda>x. f x = k) xs) \<le> 1"
  shows "distinct (map f xs)"
  using assms
proof (induction xs)
  case Nil
  then show ?case by simp
next
  case (Cons x xs)
  have tail: "length (filter (\<lambda>y. f y = k) xs) \<le> 1" for k
    using Cons.prems [of k] by (auto split: if_splits)
  have "f x \<notin> f ` set xs"
  proof
    assume "f x \<in> f ` set xs"
    then obtain y where "y \<in> set xs" "f y = f x" by auto
    then have "filter (\<lambda>y. f y = f x) xs \<noteq> []" by (auto simp: filter_empty_conv)
    then have "0 < length (filter (\<lambda>y. f y = f x) xs)" by simp
    then show False using Cons.prems [of "f x"] by simp
  qed
  then show ?case using Cons.IH tail by simp
qed

lemma distinct_deal_set: "distinct (map variant_id (deal_set es))"
proof (rule distinct_map_by_key)
  fix k
  show "length (filter (\<lambda>d. variant_id d = k) (deal_set es)) \<le> 1"
  proof (cases "find (\<lambda>e. cand_id e = Some k) es")
    case None
    then show ?thesis by (simp add: deal_set_by_id)
  next
    case (Some e)
    then show ?thesis using yield_length [of "[]" e] by (simp add: deal_set_by_id)
  qed
qed

text \<open>
  \<^bold>\<open>C4\<close> (as amended). In the deals that \<^verbatim>\<open>collect_deals\<close> returns, no variant identifier
  occurs twice. The deals with the identifier \<open>k\<close> are what the first listed variant with
  that identifier and two parsed prices yields by itself: one deal, derived from that
  first occurrence, when its reference price is greater than its price, and no deal
  otherwise; later variants with the identifier are dropped.
\<close>

theorem first_occurrence_wins:
  assumes "collect_deals (JArr ps) = Inr (ds, dp, dv)"
  shows "distinct (map variant_id ds) \<and>
         filter (\<lambda>d. variant_id d = k) ds =
           (case find (\<lambda>e. cand_id e = Some k) (listing ps) of
              None \<Rightarrow> []
            | Some e \<Rightarrow> yield [] e)"
proof -
  have "ds = deal_set (listing ps)"
    using collect_deals_listing [of ps] assms by simp
  then show ?thesis by (simp add: distinct_deal_set deal_set_by_id)
qed

subsection \<open>Feeds with odd prices and repeated identifiers, evaluated\<close>

lemma float_of_str_minus_5: "float_of_str ''-5.00'' = Some (Fin (- 5))"
  by (simp add: float_eval str_eval)

lemma float_of_str_10: "float_of_str ''10.00'' = Some (Fin 10)"
  by (simp add: float_eval str_eval)

lemma float_of_str_20: "float_of_str ''20.00'' = Some (Fin 20)"
  by (simp add: float_eval str_eval)

lemma calc_discount_10_minus_5: "calc_discount (Fin 10) (Fin (- 5)) = Inr (Fin 15, Fin 150)"
  by (simp add: calc_discount_def fle_def feq_def float_eval)

lemmas collect_eval = collect_deals_def product_step_def variant_step_def collect_init_def fgt_def
  float_of_str_40 float_of_str_80 float_of_str_20 float_of_str_10 float_of_str_minus_5
  float_of_str_inf rnd_1 calc_discount_80_40 calc_discount_10_minus_5 calc_discount_inf

lemmas listing_eval = listing_def product_entries_def product_variants_def product_title_def
  product_link_def judge_def lookup_def
  float_of_str_40 float_of_str_80 float_of_str_20 float_of_str_10 float_of_str_minus_5
  float_of_str_inf rnd_1


lemma collect_twice: "collect_deals (JArr twice_products) = Inr ([hoodie_deal], 1, 1)"
  by (simp add: twice_products_def hoodie_deal_def collect_eval)


lemma listing_twice:
  "listing twice_products =
     [(JStr ''Hoodie'', Product_page (JStr ''hoodie''), Candidate 1 (Fin 40) (Fin 80)),
      (JStr ''Hoodie'', Product_page (JStr ''hoodie''), Candidate 1 (Fin 20) (Fin 80))]"
  by (simp add: twice_products_def listing_eval)



theorem first_occurrence_wins_witness:
  "collect_deals (JArr twice_products) = Inr ([hoodie_deal], 1, 1) \<and>
   find (\<lambda>e. cand_id e = Some 1) (listing twice_products)
     = Some (JStr ''Hoodie'', Product_page (JStr ''hoodie''), Candidate 1 (Fin 40) (Fin 80)) \<and>
   yield [] (JStr ''Hoodie'', Product_page (JStr ''hoodie''), Candidate 1 (Fin 40) (Fin 80))
     = [hoodie_deal] \<and>
   distinct (map variant_id [hoodie_deal])"
proof -
  have f: "find (\<lambda>e. cand_id e = Some 1) (listing twice_products)
      = Some (JStr ''Hoodie'', Product_page (JStr ''hoodie''), Candidate 1 (Fin 40) (Fin 80))"
    by (simp add: listing_twice cand_id_def)
  have v: "variant_id hoodie_deal = 1" by (simp add: hoodie_deal_def)
  have "yield [] (JStr ''Hoodie'', Product_page (JStr ''hoodie''), Candidate 1 (Fin 40) (Fin 80))
      = [hoodie_deal]"
    using first_occurrence_wins [OF collect_twice, of 1] by (simp add: f v)
  then show ?thesis
    using first_occurrence_wins [OF collect_twice, of 1] collect_twice f by simp
qed

theorem discounted_repeat_is_dropped:
  "collect_deals (JArr repeated_products) = Inr ([], 0, 0)"
  by (simp add: repeated_products_def collect_eval)

end
